theory Spec2Isabelle
  imports Complex_Main "HOL-Library.Log_Nat" "HOL-Library.AList"
begin

section \<open>float64 arithmetic\<close>

text \<open>
  Every number of \<^verbatim>\<open>drl2svg.go\<close> is a Go \<^verbatim>\<open>float64\<close>.  A value is modelled by the
  rational it denotes, or one of the two infinities, or NaN.  The two zeros are
  identified (the program never divides and never looks at the sign of a zero), and so
  are all NaNs.  Each arithmetic operation computes the exact result and rounds it once,
  to nearest with ties to even, as IEEE 754 binary64 does (53 bit significand, exponents
  \<open>-1022 .. 1023\<close>, gradual underflow).  Fused multiply-add, which the Go specification
  permits a compiler to use, is not modelled: every \<^verbatim>\<open>*\<close>, \<^verbatim>\<open>+\<close> and \<^verbatim>\<open>-\<close> rounds on its own.
\<close>

datatype f64 = Fin rat | PInf | NInf | NaN

text \<open>\<open>expo q\<close> is the binary exponent of a positive rational: \<open>2^e \<le> q < 2^(e+1)\<close>.\<close>

definition expo_adj :: "int \<Rightarrow> rat \<Rightarrow> int" where
  "expo_adj e q = (if power_int 2 e \<le> q then e else e - 1)"

definition expo :: "rat \<Rightarrow> int" where
  "expo q = (case quotient_of q of (p, d) \<Rightarrow> expo_adj (bitlen p - bitlen d) q)"

text \<open>Rounding a rational to the nearest integer, ties to the even one.\<close>

definition rne_from :: "int \<Rightarrow> rat \<Rightarrow> int" where
  "rne_from f x = (if x - of_int f < 1 / 2 then f
                   else if 1 / 2 < x - of_int f then f + 1
                   else if even f then f else f + 1)"

definition rne :: "rat \<Rightarrow> int" where
  "rne x = rne_from \<lfloor>x\<rfloor> x"

text \<open>
  \<open>pack e n\<close> is the value \<open>n * 2^(e - 52)\<close> of a significand \<open>n \<le> 2^53\<close> at exponent \<open>e\<close>,
  or infinity when it is \<open>2^1024\<close> or more.
\<close>

definition pack :: "int \<Rightarrow> int \<Rightarrow> f64" where
  "pack e n = (if 1024 \<le> e \<or> (e = 1023 \<and> 2 ^ 53 \<le> n) then PInf
               else Fin (of_int n * power_int 2 (e - 52)))"

definition round_exp :: "int \<Rightarrow> rat \<Rightarrow> f64" where
  "round_exp e q = pack e (rne (q * power_int 2 (52 - e)))"

definition round_pos :: "rat \<Rightarrow> f64" where
  "round_pos q = round_exp (max (expo q) (- 1022)) q"

fun fneg :: "f64 \<Rightarrow> f64" where
  "fneg (Fin r) = Fin (- r)"
| "fneg PInf = NInf"
| "fneg NInf = PInf"
| "fneg NaN = NaN"

definition round64 :: "rat \<Rightarrow> f64" where
  "round64 q = (if q = 0 then Fin 0
                else if 0 < q then round_pos q
                else fneg (round_pos (- q)))"

text \<open>A finite value is a float64 when rounding leaves it as it is.\<close>

fun is_f64 :: "f64 \<Rightarrow> bool" where
  "is_f64 (Fin r) = (round64 r = Fin r)"
| "is_f64 _ = True"

fun fadd :: "f64 \<Rightarrow> f64 \<Rightarrow> f64" where
  "fadd NaN _ = NaN"
| "fadd _ NaN = NaN"
| "fadd PInf NInf = NaN"
| "fadd NInf PInf = NaN"
| "fadd PInf _ = PInf"
| "fadd _ PInf = PInf"
| "fadd NInf _ = NInf"
| "fadd _ NInf = NInf"
| "fadd (Fin a) (Fin b) = round64 (a + b)"

definition fsub :: "f64 \<Rightarrow> f64 \<Rightarrow> f64" where
  "fsub a b = fadd a (fneg b)"

text \<open>The sign of a value: \<open>1\<close>, \<open>0\<close> or \<open>-1\<close> (NaN has none and is handled before).\<close>

fun fsgn :: "f64 \<Rightarrow> int" where
  "fsgn (Fin r) = (if 0 < r then 1 else if r < 0 then - 1 else 0)"
| "fsgn PInf = 1"
| "fsgn NInf = - 1"
| "fsgn NaN = 0"

fun fmul :: "f64 \<Rightarrow> f64 \<Rightarrow> f64" where
  "fmul NaN _ = NaN"
| "fmul _ NaN = NaN"
| "fmul (Fin a) (Fin b) = round64 (a * b)"
| "fmul a b = (if fsgn a * fsgn b = 0 then NaN
               else if 0 < fsgn a * fsgn b then PInf else NInf)"

text \<open>Comparisons: every comparison with NaN is false.\<close>

fun flt :: "f64 \<Rightarrow> f64 \<Rightarrow> bool" where
  "flt NaN _ = False"
| "flt _ NaN = False"
| "flt (Fin a) (Fin b) = (a < b)"
| "flt NInf b = (b \<noteq> NInf)"
| "flt a PInf = (a \<noteq> PInf)"
| "flt _ _ = False"

definition fgt :: "f64 \<Rightarrow> f64 \<Rightarrow> bool" where
  "fgt a b = flt b a"

definition fle :: "f64 \<Rightarrow> f64 \<Rightarrow> bool" where
  "fle a b = (a \<noteq> NaN \<and> b \<noteq> NaN \<and> \<not> flt b a)"

text \<open>The constants of the program, each rounded as the compiler rounds a literal.\<close>

definition zero :: f64 where "zero = Fin 0"
definition one :: f64 where "one = Fin 1"
definition half :: f64 where "half = Fin (1 / 2)"
definition c25_4 :: f64 where "c25_4 = round64 (254 / 10)"
definition c0_45 :: f64 where "c0_45 = round64 (45 / 100)"

text \<open>The default of the \<^verbatim>\<open>--bit-size\<close> flag, \<^verbatim>\<open>.7\<close>.\<close>

definition bitSize_default :: f64 where "bitSize_default = round64 (7 / 10)"

section \<open>Scanning a line\<close>

text \<open>
  The program reads its numbers with \<^verbatim>\<open>fmt.Sscanf(line, "T%dC%f", &tool, &param1)\<close> and
  \<^verbatim>\<open>fmt.Sscanf(line, "X%fY%f", &param1, &param2)\<close>, and takes a line as matched when both
  operands were stored without error.  The two calls are a parameter of the model: a
  \<open>scanner\<close> gives, for a line, the operands of a successful call or \<open>None\<close>.
\<close>

record scanner =
  scan_tool :: "string \<Rightarrow> (int \<times> f64) option"
  scan_coord :: "string \<Rightarrow> (f64 \<times> f64) option"

text \<open>
  \<open>go_scanner\<close> below is the scanner of Go's \<^verbatim>\<open>fmt\<close> package on lines of ASCII text.
  A literal of the format must be the next character of the input.  A verb skips
  leading spaces, fails at the end of the input, and reads the longest token of its
  syntax; what follows the last operand is not looked at.  A line of
  \<^verbatim>\<open>bufio.Scanner\<close> holds no newline; \<^verbatim>\<open>Sscanf\<close> fails on one where it skips spaces.
\<close>

definition is_space :: "char \<Rightarrow> bool" where
  "is_space c = (c \<in> set [CHR 0x09, CHR 0x0B, CHR 0x0C, CHR 0x0D, CHR '' ''])"

fun skip_space :: "string \<Rightarrow> string option" where
  "skip_space [] = Some []"
| "skip_space (c # cs) =
     (if c = CHR 0x0A then None
      else if is_space c then skip_space cs
      else Some (c # cs))"

definition is_digit :: "char \<Rightarrow> bool" where
  "is_digit c = (c \<in> set ''0123456789'')"

text \<open>The number a string of decimal digits denotes.\<close>

definition digit_val :: "char \<Rightarrow> int" where
  "digit_val c = of_char c - 48"

definition read_digits :: "string \<Rightarrow> int" where
  "read_digits ds = foldl (\<lambda>n c. 10 * n + digit_val c) 0 ds"

text \<open>An optional sign: its value and the rest of the input.\<close>

fun take_sign :: "string \<Rightarrow> int \<times> string" where
  "take_sign [] = (1, [])"
| "take_sign (c # cs) =
     (if c = CHR ''-'' then (- 1, cs)
      else if c = CHR ''+'' then (1, cs)
      else (1, c # cs))"

text \<open>
  The verb \<^verbatim>\<open>%d\<close> into an \<^verbatim>\<open>int\<close>: an optional sign, then one or more characters of
  \<^verbatim>\<open>0123456789_\<close>; the token goes to \<^verbatim>\<open>strconv.ParseInt(tok, 10, 64)\<close>, which rejects an
  underscore in base 10 and a value outside 64 bits.
\<close>

definition is_digit_us :: "char \<Rightarrow> bool" where
  "is_digit_us c = (is_digit c \<or> c = CHR ''_'')"

definition int_of_token :: "int \<Rightarrow> string \<Rightarrow> string \<Rightarrow> (int \<times> string) option" where
  "int_of_token sg ds rest =
     (if ds = [] \<or> CHR ''_'' \<in> set ds then None
      else if sg * read_digits ds < - (2 ^ 63) \<or> 2 ^ 63 \<le> sg * read_digits ds then None
      else Some (sg * read_digits ds, rest))"

definition scan_d :: "string \<Rightarrow> (int \<times> string) option" where
  "scan_d inp =
     (case skip_space inp of
        None \<Rightarrow> None
      | Some s \<Rightarrow>
          (case take_sign s of
             (sg, s') \<Rightarrow> int_of_token sg (takeWhile is_digit_us s') (dropWhile is_digit_us s')))"

text \<open>
  The verb \<^verbatim>\<open>%f\<close>: the token is \<^verbatim>\<open>NaN\<close>, or an optional sign followed by \<^verbatim>\<open>Inf\<close> (both in
  any case), or an optional sign, digits, an optional point with digits and an
  optional exponent; \<^verbatim>\<open>strconv.ParseFloat\<close> gives the nearest float64 and fails when
  there is no digit before the exponent, no digit in the exponent, or the value
  overflows.  Go's token may also hold underscores between digits, a hexadecimal prefix
  \<^verbatim>\<open>0x\<close> or a binary exponent \<^verbatim>\<open>p\<close>; such tokens are outside this model, which gives \<open>None\<close>
  for them.
\<close>

definition starts_ci :: "string \<Rightarrow> string \<Rightarrow> string \<Rightarrow> bool" where
  "starts_ci lower upper inp =
     (length lower \<le> length inp \<and>
      list_all2 (\<lambda>c (l, u). c = l \<or> c = u) (take (length lower) inp) (zip lower upper))"

definition is_exp_char :: "char \<Rightarrow> bool" where
  "is_exp_char c = (c = CHR ''e'' \<or> c = CHR ''E'')"

text \<open>The exponent part: the power of ten and the rest, or failure on \<^verbatim>\<open>e\<close> without digits.\<close>

definition exp_of_token :: "int \<Rightarrow> string \<Rightarrow> string \<Rightarrow> (int \<times> string) option" where
  "exp_of_token sg ds rest = (if ds = [] then None else Some (sg * read_digits ds, rest))"

fun scan_exp :: "string \<Rightarrow> (int \<times> string) option" where
  "scan_exp [] = Some (0, [])"
| "scan_exp (c # cs) =
     (if is_exp_char c
      then (case take_sign cs of
              (sg, s') \<Rightarrow> exp_of_token sg (takeWhile is_digit s') (dropWhile is_digit s'))
      else Some (0, c # cs))"

text \<open>The fraction part: its digits and the rest.\<close>

fun scan_frac :: "string \<Rightarrow> string \<times> string" where
  "scan_frac [] = ([], [])"
| "scan_frac (c # cs) =
     (if c = CHR ''.'' then (takeWhile is_digit cs, dropWhile is_digit cs)
      else ([], c # cs))"

text \<open>Where Go's token would go on with a character this model does not read.\<close>

definition next_in :: "string \<Rightarrow> string \<Rightarrow> bool" where
  "next_in cs s = (case s of [] \<Rightarrow> False | c # _ \<Rightarrow> c \<in> set cs)"

definition hex_prefix :: "string \<Rightarrow> bool" where
  "hex_prefix s = (case s of [] \<Rightarrow> False | c # s' \<Rightarrow> c = CHR ''0'' \<and> next_in ''xX'' s')"

definition finite_or_fail :: "f64 \<Rightarrow> string \<Rightarrow> (f64 \<times> string) option" where
  "finite_or_fail v rest = (case v of Fin r \<Rightarrow> Some (Fin r, rest) | _ \<Rightarrow> None)"

definition decimal_value :: "int \<Rightarrow> string \<Rightarrow> string \<Rightarrow> int \<Rightarrow> rat" where
  "decimal_value sg ip fp ex =
     of_int (sg * read_digits (ip @ fp)) * power_int 10 (ex - int (length fp))"

definition scan_decimal :: "int \<Rightarrow> string \<Rightarrow> (f64 \<times> string) option" where
  "scan_decimal sg s =
     (case scan_frac (dropWhile is_digit s) of
        (fp, s') \<Rightarrow>
          if hex_prefix s \<or> next_in ''_'' (dropWhile is_digit s) \<or> next_in ''_pP'' s' then None
          else if takeWhile is_digit s = [] \<and> fp = [] then None
          else (case scan_exp s' of
                  None \<Rightarrow> None
                | Some (ex, rest) \<Rightarrow>
                    if next_in ''_'' rest then None
                    else finite_or_fail
                           (round64 (decimal_value sg (takeWhile is_digit s) fp ex)) rest))"

definition scan_signed :: "int \<Rightarrow> string \<Rightarrow> (f64 \<times> string) option" where
  "scan_signed sg s =
     (if starts_ci ''inf'' ''INF'' s then Some (if sg < 0 then NInf else PInf, drop 3 s)
      else scan_decimal sg s)"

definition scan_f :: "string \<Rightarrow> (f64 \<times> string) option" where
  "scan_f inp =
     (case skip_space inp of
        None \<Rightarrow> None
      | Some s \<Rightarrow>
          if s = [] then None
          else if starts_ci ''nan'' ''NAN'' s then Some (NaN, drop 3 s)
          else (case take_sign s of (sg, s') \<Rightarrow> scan_signed sg s'))"

text \<open>A literal character of the format.\<close>

fun literal :: "char \<Rightarrow> string \<Rightarrow> string option" where
  "literal c [] = None"
| "literal c (x # xs) = (if x = c then Some xs else None)"

definition sscanf_TdCf :: "string \<Rightarrow> (int \<times> f64) option" where
  "sscanf_TdCf line =
     (case literal CHR ''T'' line of
        None \<Rightarrow> None
      | Some s1 \<Rightarrow>
          (case scan_d s1 of
             None \<Rightarrow> None
           | Some (tool, s2) \<Rightarrow>
               (case literal CHR ''C'' s2 of
                  None \<Rightarrow> None
                | Some s3 \<Rightarrow>
                    (case scan_f s3 of
                       None \<Rightarrow> None
                     | Some (param1, _) \<Rightarrow> Some (tool, param1)))))"

definition sscanf_XfYf :: "string \<Rightarrow> (f64 \<times> f64) option" where
  "sscanf_XfYf line =
     (case literal CHR ''X'' line of
        None \<Rightarrow> None
      | Some s1 \<Rightarrow>
          (case scan_f s1 of
             None \<Rightarrow> None
           | Some (param1, s2) \<Rightarrow>
               (case literal CHR ''Y'' s2 of
                  None \<Rightarrow> None
                | Some s3 \<Rightarrow>
                    (case scan_f s3 of
                       None \<Rightarrow> None
                     | Some (param2, _) \<Rightarrow> Some (param1, param2)))))"

definition go_scanner :: scanner where
  "go_scanner = \<lparr>scan_tool = sscanf_TdCf, scan_coord = sscanf_XfYf\<rparr>"

text \<open>\<^verbatim>\<open>fmt.Sprint("T", tool)\<close>: the letter and the decimal digits of the integer.\<close>

definition digit_char :: "nat \<Rightarrow> char" where
  "digit_char n = char_of (48 + n)"

fun show_nat :: "nat \<Rightarrow> string" where
  "show_nat n = (if n < 10 then [digit_char n] else show_nat (n div 10) @ [digit_char (n mod 10)])"

declare show_nat.simps [simp del]

definition show_int :: "int \<Rightarrow> string" where
  "show_int i = (if i < 0 then CHR ''-'' # show_nat (nat (- i)) else show_nat (nat i))"

definition sprint_T :: "int \<Rightarrow> string" where
  "sprint_T tool = CHR ''T'' # show_int tool"

section \<open>The program state\<close>

text \<open>
  \<^verbatim>\<open>type Hole struct { Radius, Cx, Cy float64 }\<close> and the variables of \<^verbatim>\<open>main\<close> that live
  across the iterations of the reading loop.  The map \<^verbatim>\<open>tools\<close> is an association list:
  the program stores into it, looks keys up and tests \<^verbatim>\<open>len(tools) == 0\<close>.
\<close>

record hole =
  Radius :: f64
  Cx :: f64
  Cy :: f64

record pstate =
  tools :: "(string \<times> f64) list"
  holes :: "hole list"
  toolRadius :: f64
  maxToolDiameter :: f64
  factor :: f64
  leftEdge :: f64
  rightEdge :: f64
  topEdge :: f64
  bottomEdge :: f64

definition init_state :: pstate where
  "init_state = \<lparr>tools = [], holes = [], toolRadius = zero, maxToolDiameter = zero,
                  factor = zero, leftEdge = zero, rightEdge = zero, topEdge = zero,
                  bottomEdge = zero\<rparr>"

text \<open>\<^verbatim>\<open>log.Fatalf("unable to handle tool diameter %q < %f mm", line, *bitSize)\<close> ends the
  process.\<close>

datatype fatal = ToolDiameterTooSmall string f64

section \<open>One line of the drill file\<close>

text \<open>Lines 83 to 100: the coordinate record.  Every edge is compared with its value
  before this hole, and \<^verbatim>\<open>len(holes) == 0\<close> makes the first hole set all four.\<close>

definition add_hole :: "pstate \<Rightarrow> f64 \<Rightarrow> f64 \<Rightarrow> pstate" where
  "add_hole st cx cy =
     st\<lparr>leftEdge :=
          (if holes st = [] \<or> flt (fsub cx (toolRadius st)) (leftEdge st)
           then fsub cx (toolRadius st) else leftEdge st),
        rightEdge :=
          (if holes st = [] \<or> fgt (fadd cx (toolRadius st)) (rightEdge st)
           then fadd cx (toolRadius st) else rightEdge st),
        topEdge :=
          (if holes st = [] \<or> flt (fsub cy (toolRadius st)) (topEdge st)
           then fsub cy (toolRadius st) else topEdge st),
        bottomEdge :=
          (if holes st = [] \<or> fgt (fadd cy (toolRadius st)) (bottomEdge st)
           then fadd cy (toolRadius st) else bottomEdge st),
        holes := holes st @ [\<lparr>Radius = toolRadius st, Cx = cx, Cy = cy\<rparr>]\<rparr>"

text \<open>Lines 68 to 76: the tool definition, once \<^verbatim>\<open>Sscanf\<close> has matched.\<close>

definition define_tool :: "f64 \<Rightarrow> pstate \<Rightarrow> string \<Rightarrow> int \<Rightarrow> f64 \<Rightarrow> fatal + pstate" where
  "define_tool bitSize st line tool param1 =
     (if flt param1 bitSize then Inl (ToolDiameterTooSmall line bitSize)
      else Inr (st\<lparr>maxToolDiameter :=
                     (if tools st = [] \<or> fgt (fmul param1 (factor st)) (maxToolDiameter st)
                      then fmul param1 (factor st) else maxToolDiameter st),
                   tools := AList.update (sprint_T tool) (fmul param1 (factor st)) (tools st)\<rparr>))"

text \<open>The body of the loop \<^verbatim>\<open>for sc.Scan()\<close>, lines 55 to 106; the first rule that matches
  ends the iteration.\<close>

definition step :: "scanner \<Rightarrow> f64 \<Rightarrow> pstate \<Rightarrow> string \<Rightarrow> fatal + pstate" where
  "step sc bitSize st line =
     (if line = ''METRIC'' then Inr (st\<lparr>factor := one\<rparr>)
      else if line = ''INCH'' then Inr (st\<lparr>factor := c25_4\<rparr>)
      else case scan_tool sc line of
        Some (tool, param1) \<Rightarrow> define_tool bitSize st line tool param1
      | None \<Rightarrow>
         (case map_of (tools st) line of
            Some d \<Rightarrow> Inr (st\<lparr>toolRadius := fmul (fsub d bitSize) half\<rparr>)
          | None \<Rightarrow>
             (case scan_coord sc line of
                Some (param1, param2) \<Rightarrow>
                  Inr (add_hole st (fmul param1 (factor st)) (fmul param2 (factor st)))
              | None \<Rightarrow> Inr st)))"

fun parse :: "scanner \<Rightarrow> f64 \<Rightarrow> pstate \<Rightarrow> string list \<Rightarrow> fatal + pstate" where
  "parse sc bitSize st [] = Inr st"
| "parse sc bitSize st (line # rest) =
     (case step sc bitSize st line of
        Inl e \<Rightarrow> Inl e
      | Inr st' \<Rightarrow> parse sc bitSize st' rest)"

text \<open>Lines 113 to 116: the margin, after the last line.\<close>

definition expand :: "pstate \<Rightarrow> pstate" where
  "expand st =
     st\<lparr>leftEdge := fsub (leftEdge st) (maxToolDiameter st),
        rightEdge := fadd (rightEdge st) (maxToolDiameter st),
        topEdge := fsub (topEdge st) (maxToolDiameter st),
        bottomEdge := fadd (bottomEdge st) (maxToolDiameter st)\<rparr>"

section \<open>Drawing\<close>

text \<open>
  The calls on the canvas, in the order the program makes them.  What \<^verbatim>\<open>svgof\<close> writes
  for a call is not part of this development.
\<close>

datatype draw =
  StartviewUnit f64 f64 string f64 f64 f64 f64
| Circle f64 f64 f64
| End

text \<open>
  Line 138, \<^verbatim>\<open>for dr := h.Radius; dr > 0; dr -= 0.45 * *bitSize\<close>, appending \<^verbatim>\<open>dr\<close> to
  \<^verbatim>\<open>radii\<close>.  The loop need not end: \<open>None\<close> is the run that never leaves it (the
  program then appends to \<^verbatim>\<open>radii\<close> for as long as it has memory).
\<close>

partial_function (option) radii_loop :: "f64 \<Rightarrow> f64 \<Rightarrow> f64 list \<Rightarrow> f64 list option" where
  "radii_loop bitSize dr radii =
     (if fgt dr zero
      then radii_loop bitSize (fsub dr (fmul c0_45 bitSize)) (radii @ [dr])
      else Some radii)"

declare radii_loop.simps [code]

text \<open>Lines 137 to 143 for one hole: the circles, from the last radius to the first.\<close>

definition draw_hole :: "f64 \<Rightarrow> hole \<Rightarrow> draw list option" where
  "draw_hole bitSize h =
     (case radii_loop bitSize (Radius h) [] of
        None \<Rightarrow> None
      | Some radii \<Rightarrow> Some (map (Circle (Cx h) (Cy h)) (rev radii)))"

fun draw_holes :: "f64 \<Rightarrow> hole list \<Rightarrow> draw list option" where
  "draw_holes bitSize [] = Some []"
| "draw_holes bitSize (h # hs) =
     (case draw_hole bitSize h of
        None \<Rightarrow> None
      | Some cs \<Rightarrow>
          (case draw_holes bitSize hs of
             None \<Rightarrow> None
           | Some ds \<Rightarrow> Some (cs @ ds)))"

definition start_view :: "pstate \<Rightarrow> draw" where
  "start_view st =
     StartviewUnit (fsub (rightEdge st) (leftEdge st)) (fsub (bottomEdge st) (topEdge st)) ''mm''
       (leftEdge st) (topEdge st)
       (fsub (rightEdge st) (leftEdge st)) (fsub (bottomEdge st) (topEdge st))"

text \<open>The three ways a run can go: the fatal exit, a radius loop that never ends, or the
  calls made on the canvas.\<close>

datatype outcome = Fatal fatal | Hangs | Drawn "draw list"

definition render :: "f64 \<Rightarrow> pstate \<Rightarrow> outcome" where
  "render bitSize st =
     (case draw_holes bitSize (holes st) of
        None \<Rightarrow> Hangs
      | Some cs \<Rightarrow> Drawn (start_view st # cs @ [End]))"

definition main :: "scanner \<Rightarrow> f64 \<Rightarrow> string list \<Rightarrow> outcome" where
  "main sc bitSize lines =
     (case parse sc bitSize init_state lines of
        Inl e \<Rightarrow> Fatal e
      | Inr st \<Rightarrow> render bitSize (expand st))"

section \<open>The process\<close>







section \<open>Notions used in the statements\<close>

text \<open>The extent: the four edges, as \<open>(left, right, top, bottom)\<close>.\<close>

definition extent :: "pstate \<Rightarrow> f64 \<times> f64 \<times> f64 \<times> f64" where
  "extent st = (leftEdge st, rightEdge st, topEdge st, bottomEdge st)"

text \<open>
  The extent as a function of the holes alone: \<open>grow\<close> is what one hole does to the four
  edges (\<open>first\<close> for the first hole of the file), and \<open>extent_of\<close> applies it to the holes
  in file order, starting from the four zeros.
\<close>

definition grow :: "bool \<Rightarrow> f64 \<times> f64 \<times> f64 \<times> f64 \<Rightarrow> hole \<Rightarrow> f64 \<times> f64 \<times> f64 \<times> f64" where
  "grow first e h =
     (case e of (l, r, t, b) \<Rightarrow>
        (if first \<or> flt (fsub (Cx h) (Radius h)) l then fsub (Cx h) (Radius h) else l,
         if first \<or> fgt (fadd (Cx h) (Radius h)) r then fadd (Cx h) (Radius h) else r,
         if first \<or> flt (fsub (Cy h) (Radius h)) t then fsub (Cy h) (Radius h) else t,
         if first \<or> fgt (fadd (Cy h) (Radius h)) b then fadd (Cy h) (Radius h) else b))"

fun extent_rev :: "hole list \<Rightarrow> f64 \<times> f64 \<times> f64 \<times> f64" where
  "extent_rev [] = (zero, zero, zero, zero)"
| "extent_rev (h # earlier) = grow (earlier = []) (extent_rev earlier) h"

definition extent_of :: "hole list \<Rightarrow> f64 \<times> f64 \<times> f64 \<times> f64" where
  "extent_of hs = extent_rev (rev hs)"

text \<open>
  Which rule of the loop body a line takes in a state: rule 3, the selection of a known
  tool, and rule 4, the coordinate record.
\<close>

definition is_selection :: "scanner \<Rightarrow> pstate \<Rightarrow> string \<Rightarrow> bool" where
  "is_selection sc st line \<longleftrightarrow>
     line \<noteq> ''METRIC'' \<and> line \<noteq> ''INCH'' \<and> scan_tool sc line = None \<and>
     map_of (tools st) line \<noteq> None"

definition is_coordinate :: "scanner \<Rightarrow> pstate \<Rightarrow> string \<Rightarrow> bool" where
  "is_coordinate sc st line \<longleftrightarrow>
     line \<noteq> ''METRIC'' \<and> line \<noteq> ''INCH'' \<and> scan_tool sc line = None \<and>
     map_of (tools st) line = None \<and> scan_coord sc line \<noteq> None"

text \<open>
  The decimal rendering of an integer: a minus sign for a negative one, then the digits
  of its absolute value, with no leading zero (the single digit \<^verbatim>\<open>0\<close> for zero).
\<close>

definition decimal_digits :: "int \<Rightarrow> string \<Rightarrow> bool" where
  "decimal_digits m ds \<longleftrightarrow>
     ds \<noteq> [] \<and> list_all is_digit ds \<and> (hd ds = CHR ''0'' \<longrightarrow> ds = ''0'') \<and> read_digits ds = m"

definition is_decimal_of :: "int \<Rightarrow> string \<Rightarrow> bool" where
  "is_decimal_of n s \<longleftrightarrow>
     (if n < 0 then (case s of [] \<Rightarrow> False | c # cs \<Rightarrow> c = CHR ''-'' \<and> decimal_digits (- n) cs)
      else decimal_digits n s)"

text \<open>Digits that carry leading zeros: two digits or more, the first a zero.\<close>

definition leading_zeros :: "string \<Rightarrow> bool" where
  "leading_zeros ds \<longleftrightarrow> list_all is_digit ds \<and> 1 < length ds \<and> hd ds = CHR ''0''"

text \<open>No line of the list selects a tool when the lines are processed from \<open>st\<close> on.\<close>

fun no_selection :: "scanner \<Rightarrow> f64 \<Rightarrow> pstate \<Rightarrow> string list \<Rightarrow> bool" where
  "no_selection sc bitSize st [] = True"
| "no_selection sc bitSize st (line # rest) =
     (\<not> is_selection sc st line \<and>
      (case step sc bitSize st line of
         Inl e \<Rightarrow> True
       | Inr st' \<Rightarrow> no_selection sc bitSize st' rest))"

text \<open>
  The value of the loop variable \<^verbatim>\<open>dr\<close> after \<open>k\<close> rounds: \<open>R\<close>, then \<open>R - 0.45 * B\<close>, and so
  on, each subtraction in float64 as the program does it.
\<close>

definition radius_at :: "f64 \<Rightarrow> f64 \<Rightarrow> nat \<Rightarrow> f64" where
  "radius_at bitSize R k = ((\<lambda>dr. fsub dr (fmul c0_45 bitSize)) ^^ k) R"

text \<open>
  The radius list in the words of the specification: \<open>R, R - s, R - 2s, \<dots>\<close> for the step
  \<open>s = 0.45 * B\<close>, as long as the value is above zero; the first value that is not ends the
  list and is left out.
\<close>

definition is_radius_list :: "f64 \<Rightarrow> f64 \<Rightarrow> f64 list \<Rightarrow> bool" where
  "is_radius_list bitSize R rs \<longleftrightarrow>
     rs = map (radius_at bitSize R) [0..<length rs] \<and>
     list_all (\<lambda>r. fgt r zero) rs \<and>
     \<not> fgt (radius_at bitSize R (length rs)) zero"

text \<open>
  A radius the loop can work off: it is not above zero, or the step \<open>0.45 * B\<close> is a
  positive number and the radius is a float64 of at most \<open>2^53\<close> steps.
\<close>

definition within_reach :: "f64 \<Rightarrow> f64 \<Rightarrow> bool" where
  "within_reach bitSize R \<longleftrightarrow>
     \<not> fgt R zero \<or>
     (case fmul c0_45 bitSize of
        Fin t \<Rightarrow> (case R of Fin r \<Rightarrow> 0 < t \<and> is_f64 R \<and> r \<le> 2 ^ 53 * t | _ \<Rightarrow> False)
      | _ \<Rightarrow> False)"

text \<open>The radii of a hole whose loop ends.\<close>

definition radii_of :: "f64 \<Rightarrow> f64 \<Rightarrow> f64 list" where
  "radii_of bitSize R = (case radii_loop bitSize R [] of None \<Rightarrow> [] | Some rs \<Rightarrow> rs)"

text \<open>What a run shows of itself: the holes, the extent given to the canvas and the
  circles (\<open>None\<close> when a radius loop does not end), or the fatal exit.\<close>

definition observe ::
  "scanner \<Rightarrow> f64 \<Rightarrow> string list \<Rightarrow>
     fatal + hole list \<times> (f64 \<times> f64 \<times> f64 \<times> f64) \<times> draw list option" where
  "observe sc bitSize lines =
     (case parse sc bitSize init_state lines of
        Inl e \<Rightarrow> Inl e
      | Inr st \<Rightarrow> Inr (holes st, extent (expand st), draw_holes bitSize (holes st)))"

text \<open>The value \<open>n * 2^(e - 52)\<close> that rounding a positive rational arrives at, before the
  test for overflow.\<close>

definition rval :: "rat \<Rightarrow> rat" where
  "rval q = of_int (rne (q * power_int 2 (52 - max (expo q) (- 1022)))) *
            power_int 2 (max (expo q) (- 1022) - 52)"

section \<open>Rounding\<close>

text \<open>The exponent of a positive rational brackets it between two powers of two.\<close>

lemma bitlen_powi_bounds:
  assumes "0 < (p::int)"
  shows "power_int (2::rat) (bitlen p - 1) \<le> of_int p" and "of_int p < power_int (2::rat) (bitlen p)"
proof -
  from bitlen_bounds[OF assms]
  have lo: "2 ^ nat (bitlen p - 1) \<le> p" and hi: "p < 2 ^ nat (bitlen p)" by auto
  have b1: "1 \<le> bitlen p" using assms by (simp add: bitlen_alt_def)
  have "power_int (2::rat) (bitlen p - 1) = of_int (2 ^ nat (bitlen p - 1))"
    using b1 by (simp add: power_int_def)
  also have "\<dots> \<le> of_int p" using lo by (simp only: of_int_le_iff)
  finally show "power_int (2::rat) (bitlen p - 1) \<le> of_int p" .
  have "of_int p < (of_int (2 ^ nat (bitlen p)) :: rat)" using hi by (simp only: of_int_less_iff)
  also have "\<dots> = power_int 2 (bitlen p)" using b1 by (simp add: power_int_def)
  finally show "of_int p < power_int (2::rat) (bitlen p)" .
qed

lemma expo_bounds:
  assumes "0 < q"
  shows "power_int 2 (expo q) \<le> q" and "q < power_int 2 (expo q + 1)"
proof -
  obtain p d where pd: "quotient_of q = (p, d)" by (cases "quotient_of q")
  then have d: "0 < d" and q: "q = of_int p / of_int d"
    using quotient_of_denom_pos quotient_of_div by blast+
  have p: "0 < p" using assms d q by (simp add: zero_less_divide_iff)
  let ?a = "bitlen p" and ?b = "bitlen d"
  have up: "q < power_int 2 (?a - ?b + 1)"
  proof -
    have "of_int p / of_int d < power_int (2::rat) ?a / power_int 2 (?b - 1)"
      by (rule frac_less) (use p d bitlen_powi_bounds in auto)
    also have "\<dots> = power_int 2 (?a - (?b - 1))" by (simp add: power_int_diff)
    finally show ?thesis by (simp add: q algebra_simps)
  qed
  have lo: "power_int 2 (?a - ?b - 1) < q"
  proof -
    have "power_int (2::rat) (?a - 1) / power_int 2 ?b < of_int p / of_int d"
      by (rule frac_less2) (use p d bitlen_powi_bounds in auto)
    moreover have "power_int (2::rat) (?a - 1) / power_int 2 ?b = power_int 2 (?a - 1 - ?b)"
      by (simp add: power_int_diff)
    ultimately show ?thesis by (simp add: q algebra_simps)
  qed
  have e: "expo q = expo_adj (?a - ?b) q" by (simp add: expo_def pd)
  show "power_int 2 (expo q) \<le> q" using lo by (auto simp: e expo_adj_def)
  show "q < power_int 2 (expo q + 1)" using up by (auto simp: e expo_adj_def)
qed

lemma rne_upper: "of_int (rne x) \<le> x + 1 / 2"
  unfolding rne_def rne_from_def by (auto simp: not_less) linarith+

lemma rne_lower: "x - 1 / 2 \<le> of_int (rne x)"
  unfolding rne_def rne_from_def by (auto simp: not_less) linarith+

lemma rne_floor: "\<lfloor>x\<rfloor> \<le> rne x" "rne x \<le> \<lfloor>x\<rfloor> + 1"
  unfolding rne_def rne_from_def by auto

lemma rne_ge_int:
  assumes "of_int k \<le> x"
  shows "k \<le> rne x"
proof -
  have "k \<le> \<lfloor>x\<rfloor>" using assms by (simp add: le_floor_iff)
  with rne_floor(1)[of x] show ?thesis by linarith
qed

lemma rne_le_int: "x \<le> of_int k \<Longrightarrow> rne x \<le> k"
proof (cases "x = of_int k")
  case True
  then show ?thesis by (simp add: rne_def rne_from_def)
next
  case False
  assume "x \<le> of_int k"
  with False have "x < of_int k" by simp
  then have "\<lfloor>x\<rfloor> < k" by (simp add: floor_less_iff)
  then show ?thesis unfolding rne_def rne_from_def by auto
qed


lemma rval_upper: "rval q \<le> q + power_int 2 (max (expo q) (- 1022) - 53)"
proof -
  let ?e = "max (expo q) (- 1022)"
  have "rval q \<le> (q * power_int 2 (52 - ?e) + 1 / 2) * power_int 2 (?e - 52)"
    unfolding rval_def by (rule mult_right_mono[OF rne_upper]) simp
  also have "\<dots> = q * (power_int 2 (52 - ?e) * power_int 2 (?e - 52))
                   + power_int 2 (- 1) * power_int 2 (?e - 52)"
    by (simp add: algebra_simps)
  also have "power_int (2::rat) (52 - ?e) * power_int 2 (?e - 52) = power_int 2 ((52 - ?e) + (?e - 52))"
    by (rule power_int_add[symmetric]) simp
  also have "power_int (2::rat) (- 1) * power_int 2 (?e - 52) = power_int 2 (- 1 + (?e - 52))"
    by (rule power_int_add[symmetric]) simp
  finally show ?thesis by (simp add: algebra_simps)
qed

lemma rval_nonneg: "0 < q \<Longrightarrow> 0 \<le> rval q"
proof -
  assume "0 < q"
  then have "of_int 0 \<le> q * power_int 2 (52 - max (expo q) (- 1022))" by simp
  then have "0 \<le> rne (q * power_int 2 (52 - max (expo q) (- 1022)))" by (rule rne_ge_int)
  then show ?thesis by (simp add: rval_def)
qed

lemma rval_grid: "\<exists>k::int. rval q = of_int k * power_int 2 (- 1074)"
proof -
  let ?e = "max (expo q) (- 1022)"
  let ?n = "rne (q * power_int 2 (52 - ?e))"
  have "power_int (2::rat) (?e - 52) = power_int 2 (?e + 1022) * power_int 2 (- 1074)"
    by (subst power_int_add[symmetric]) simp_all
  also have "power_int (2::rat) (?e + 1022) = of_int (2 ^ nat (?e + 1022))"
    by (simp add: power_int_def)
  finally have "rval q = of_int (?n * 2 ^ nat (?e + 1022)) * power_int 2 (- 1074)"
    by (simp add: rval_def)
  then show ?thesis by blast
qed

lemma round_pos_cases:
  "round_pos q = Fin (rval q) \<or> round_pos q = PInf"
  by (simp add: round_pos_def round_exp_def pack_def rval_def)

lemma round_pos_PInf:
  assumes "0 < q" and "round_pos q = PInf"
  shows "power_int 2 1024 \<le> rval q"
proof -
  let ?e = "max (expo q) (- 1022)"
  let ?n = "rne (q * power_int 2 (52 - ?e))"
  from assms(2) have c: "1024 \<le> ?e \<or> (?e = 1023 \<and> 2 ^ 53 \<le> ?n)"
    by (simp add: round_pos_def round_exp_def pack_def split: if_splits)
  show ?thesis
  proof (cases "1024 \<le> ?e")
    case True
    then have e: "?e = expo q" by simp
    have "power_int 2 ?e \<le> q" using expo_bounds(1)[OF assms(1)] e by simp
    then have "power_int 2 ?e * power_int 2 (52 - ?e) \<le> q * power_int 2 (52 - ?e)"
      by (rule mult_right_mono) simp
    moreover have "power_int (2::rat) ?e * power_int 2 (52 - ?e) = power_int 2 (?e + (52 - ?e))"
      by (rule power_int_add[symmetric]) simp
    ultimately have "of_int (2 ^ 52) \<le> q * power_int 2 (52 - ?e)" by simp
    then have "2 ^ 52 \<le> ?n" by (rule rne_ge_int)
    then have "(of_int (2 ^ 52) :: rat) \<le> of_int ?n" by (simp only: of_int_le_iff)
    then have "of_int (2 ^ 52) * power_int 2 (?e - 52) \<le> rval q"
      unfolding rval_def by (rule mult_right_mono) simp
    moreover have "(of_int (2 ^ 52) :: rat) * power_int 2 (?e - 52) = power_int 2 ?e"
    proof -
      have "power_int (2::rat) 52 * power_int 2 (?e - 52) = power_int 2 (52 + (?e - 52))"
        by (rule power_int_add[symmetric]) simp
      then show ?thesis by simp
    qed
    moreover have "power_int (2::rat) 1024 \<le> power_int 2 ?e"
      by (rule power_int_increasing) (use True in simp_all)
    ultimately show ?thesis by linarith
  next
    case False
    with c have e: "?e = 1023" and n: "2 ^ 53 \<le> ?n" by auto
    from n have "(of_int (2 ^ 53) :: rat) \<le> of_int ?n" by (simp only: of_int_le_iff)
    then have "of_int (2 ^ 53) * power_int 2 (?e - 52) \<le> rval q"
      unfolding rval_def by (rule mult_right_mono) simp
    moreover have "(of_int (2 ^ 53) :: rat) * power_int 2 (?e - 52) = power_int 2 1024"
    proof -
      have "power_int (2::rat) 53 * power_int 2 (1023 - 52) = power_int 2 (53 + (1023 - 52))"
        by (rule power_int_add[symmetric]) simp
      then show ?thesis by (simp add: e)
    qed
    ultimately show ?thesis by simp
  qed
qed


lemma round_pos_Fin_eq: "round_pos q = Fin r \<Longrightarrow> r = rval q"
  using round_pos_cases[of q] by auto

lemma round_pos_Fin_lt:
  assumes "0 < q" and "round_pos q = Fin r"
  shows "r < power_int 2 1024"
proof -
  let ?e = "max (expo q) (- 1022)"
  let ?n = "rne (q * power_int 2 (52 - ?e))"
  have r: "r = of_int ?n * power_int 2 (?e - 52)"
    using round_pos_Fin_eq[OF assms(2)] by (simp add: rval_def)
  from assms(2) have c: "?e \<le> 1023" "?e \<noteq> 1023 \<or> ?n < 2 ^ 53"
    by (auto simp: round_pos_def round_exp_def pack_def split: if_splits)
  have "q < power_int 2 (expo q + 1)" by (rule expo_bounds(2)[OF assms(1)])
  also have "\<dots> \<le> power_int 2 (?e + 1)" by (rule power_int_increasing) simp_all
  finally have "q * power_int 2 (52 - ?e) < power_int 2 (?e + 1) * power_int 2 (52 - ?e)"
    by (rule mult_strict_right_mono) simp
  moreover have "power_int (2::rat) (?e + 1) * power_int 2 (52 - ?e) = power_int 2 ((?e + 1) + (52 - ?e))"
    by (rule power_int_add[symmetric]) simp
  ultimately have "q * power_int 2 (52 - ?e) \<le> of_int (2 ^ 53)" by simp
  then have n: "?n \<le> 2 ^ 53" by (rule rne_le_int)
  show ?thesis
  proof (cases "?e = 1023")
    case True
    with c have "?n < 2 ^ 53" by simp
    then have "(of_int ?n :: rat) < of_int (2 ^ 53)" by (simp only: of_int_less_iff)
    then have "of_int ?n * power_int 2 (?e - 52) < of_int (2 ^ 53) * power_int (2::rat) (?e - 52)"
      by (rule mult_strict_right_mono) simp
    moreover have "power_int (2::rat) 53 * power_int 2 (1023 - 52) = power_int 2 (53 + (1023 - 52))"
      by (rule power_int_add[symmetric]) simp
    ultimately show ?thesis by (simp add: r True)
  next
    case False
    with c have e: "?e + 1 \<le> 1023" by simp
    from n have "(of_int ?n :: rat) \<le> of_int (2 ^ 53)" by (simp only: of_int_le_iff)
    then have A: "of_int ?n * power_int 2 (?e - 52) \<le> of_int (2 ^ 53) * power_int (2::rat) (?e - 52)"
      by (rule mult_right_mono) simp
    have "power_int (2::rat) 53 * power_int 2 (?e - 52) = power_int 2 (53 + (?e - 52))"
      by (rule power_int_add[symmetric]) simp
    then have B: "of_int (2 ^ 53) * power_int (2::rat) (?e - 52) = power_int 2 (?e + 1)"
      by (simp add: add.commute)
    have C: "power_int (2::rat) (?e + 1) \<le> power_int 2 1023"
      by (rule power_int_increasing) (use e in simp_all)
    have D: "power_int (2::rat) 1023 < power_int 2 1024"
      by (rule power_int_strict_increasing) simp_all
    have "of_int ?n * power_int 2 (?e - 52) < power_int (2::rat) 1024"
      using A B C D by linarith
    then show ?thesis by (simp only: r)
  qed
qed

lemma round64_Fin_cases:
  assumes "round64 q = Fin r"
  shows "(q = 0 \<and> r = 0) \<or> (0 < q \<and> round_pos q = Fin r) \<or> (q < 0 \<and> round_pos (- q) = Fin (- r))"
proof -
  consider "q = 0" | "0 < q" | "q < 0" by linarith
  then show ?thesis
  proof cases
    case 1
    with assms show ?thesis by (simp add: round64_def)
  next
    case 2
    with assms show ?thesis by (simp add: round64_def)
  next
    case 3
    with assms have "fneg (round_pos (- q)) = Fin r" by (simp add: round64_def)
    then have "round_pos (- q) = Fin (- r)" by (cases "round_pos (- q)") auto
    with 3 show ?thesis by simp
  qed
qed

lemma round64_grid:
  assumes "round64 q = Fin r"
  shows "\<exists>k::int. r = of_int k * power_int 2 (- 1074)"
proof -
  from round64_Fin_cases[OF assms] consider "r = 0" | "r = rval q" | "- r = rval (- q)"
    using round_pos_Fin_eq by blast
  then show ?thesis
  proof cases
    case 1
    then have "r = of_int 0 * power_int 2 (- 1074)" by simp
    then show ?thesis by blast
  next
    case 2
    then show ?thesis using rval_grid by simp
  next
    case 3
    from rval_grid[of "- q"] obtain k :: int where "rval (- q) = of_int k * power_int 2 (- 1074)" by blast
    with 3 have "r = of_int (- k) * power_int 2 (- 1074)" by simp
    then show ?thesis by blast
  qed
qed

lemma round64_lt:
  assumes "round64 q = Fin r"
  shows "r < power_int 2 1024"
proof -
  have pos: "(0::rat) < power_int 2 1024" by simp
  from round64_Fin_cases[OF assms] show ?thesis
  proof (elim disjE conjE)
    assume "r = 0" then show ?thesis using pos by simp
  next
    assume "0 < q" "round_pos q = Fin r"
    then show ?thesis by (rule round_pos_Fin_lt)
  next
    assume q: "q < 0" and "round_pos (- q) = Fin (- r)"
    then have "- r = rval (- q)" by (rule_tac round_pos_Fin_eq)
    moreover have "0 \<le> rval (- q)" by (rule rval_nonneg) (use q in simp)
    ultimately have "r \<le> 0" by simp
    with pos show ?thesis by linarith
  qed
qed

lemma round64_nonpos:
  assumes "q \<le> 0"
  shows "\<not> fgt (round64 q) zero"
proof (cases "q = 0")
  case True
  then show ?thesis by (simp add: round64_def fgt_def zero_def)
next
  case False
  with assms have q: "0 < - q" by simp
  from round_pos_cases[of "- q"] rval_nonneg[OF q]
  show ?thesis using False assms by (auto simp: round64_def fgt_def zero_def)
qed

lemma grid_pos_min:
  assumes "(r::rat) = of_int k * power_int 2 (- 1074)" and "0 < r"
  shows "power_int 2 (- 1074) \<le> r"
proof -
  have p: "(0::rat) < power_int 2 (- 1074)" by simp
  from assms have "0 < (of_int k :: rat)" using p by (simp add: zero_less_mult_iff)
  then have "1 \<le> k" by simp
  then have "(1::rat) \<le> of_int k" by simp
  then have "1 * power_int 2 (- 1074) \<le> of_int k * power_int (2::rat) (- 1074)"
    by (rule mult_right_mono) simp
  with assms show ?thesis by simp
qed


lemma fgt_Fin_zero: "fgt (Fin v) zero \<longleftrightarrow> 0 < v"
  by (simp add: fgt_def zero_def)

lemma fsub_Fin: "fsub (Fin a) (Fin b) = round64 (a - b)"
  by (simp add: fsub_def)

lemma sub_step:
  assumes t: "power_int 2 (- 1074) \<le> t"
    and r: "r < power_int 2 1024" "r \<le> 2 ^ 53 * t"
  shows "\<not> fgt (round64 (r - t)) zero \<or> (\<exists>v. round64 (r - t) = Fin v \<and> 0 < v \<and> v < r)"
proof (cases "r - t \<le> 0")
  case True
  then show ?thesis using round64_nonpos by blast
next
  case False
  then have y: "0 < r - t" by simp
  have tpos: "0 < t" using t by (rule less_le_trans[rotated]) simp
  let ?y = "r - t"
  let ?e = "max (expo ?y) (- 1022)"
  have ulp: "power_int 2 (?e - 53) < t"
  proof (cases "expo ?y \<le> - 1022")
    case True
    then have "?e = - 1022" by simp
    moreover have "power_int (2::rat) (- 1022 - 53) < power_int 2 (- 1074)"
      by (rule power_int_strict_increasing) simp_all
    ultimately show ?thesis using t by simp
  next
    case False
    then have e: "?e = expo ?y" by simp
    have "power_int (2::rat) (?e - 53) = power_int 2 ?e * power_int 2 (- 53)"
      by (subst power_int_add[symmetric]) simp_all
    also have "\<dots> \<le> ?y * power_int 2 (- 53)"
      by (rule mult_right_mono) (use expo_bounds(1)[OF y] e in simp_all)
    also have "\<dots> < r * power_int 2 (- 53)"
      by (rule mult_strict_right_mono) (use tpos in simp_all)
    also have "\<dots> \<le> (2 ^ 53 * t) * power_int 2 (- 53)"
      by (rule mult_right_mono) (use r in simp_all)
    also have "\<dots> = t" by (simp add: power_int_minus)
    finally show ?thesis .
  qed
  have v: "rval ?y < r" using rval_upper[of ?y] ulp by linarith
  have "round_pos ?y \<noteq> PInf"
  proof
    assume "round_pos ?y = PInf"
    from round_pos_PInf[OF y this] v r(1) show False by linarith
  qed
  with round_pos_cases[of ?y] have "round_pos ?y = Fin (rval ?y)" by simp
  with y have f: "round64 ?y = Fin (rval ?y)" by (simp add: round64_def)
  show ?thesis
  proof (cases "0 < rval ?y")
    case True
    with f v show ?thesis by blast
  next
    case False
    with f show ?thesis by (simp add: fgt_Fin_zero)
  qed
qed

lemma fmul_Fin: "fmul a b = Fin t \<Longrightarrow> \<exists>q. round64 q = Fin t"
  by (cases a; cases b) (auto split: if_splits)

lemma grid_floor:
  assumes "(r::rat) = of_int k * power_int 2 (- 1074)"
  shows "\<lfloor>r * power_int 2 1074\<rfloor> = k"
proof -
  have "power_int (2::rat) (- 1074) * power_int 2 1074 = power_int 2 (- 1074 + 1074)"
    by (rule power_int_add[symmetric]) simp
  then have "r * power_int 2 1074 = of_int k" by (simp add: assms mult.assoc del: power_int_numeral power_int_minus)
  then show ?thesis by simp
qed

section \<open>The radius loop\<close>

lemma radii_loop_stop: "\<not> fgt dr zero \<Longrightarrow> radii_loop B dr acc = Some acc"
  by (subst radii_loop.simps) simp

lemma radii_loop_go:
  "fgt dr zero \<Longrightarrow> radii_loop B dr acc = radii_loop B (fsub dr (fmul c0_45 B)) (acc @ [dr])"
  by (subst radii_loop.simps) simp

lemma radii_loop_terminates:
  assumes t: "fmul c0_45 B = Fin t" "0 < t"
    and r: "round64 q = Fin r" "r \<le> 2 ^ 53 * t"
  shows "\<exists>rs. radii_loop B (Fin r) acc = Some rs"
  using r
proof (induction "nat \<lfloor>r * power_int 2 1074\<rfloor>" arbitrary: r q acc rule: less_induct)
  case less
  show ?case
  proof (cases "fgt (Fin r) zero")
    case False
    then show ?thesis by (simp add: radii_loop_stop)
  next
    case True
    then have rpos: "0 < r" by (simp add: fgt_Fin_zero)
    from fmul_Fin[OF t(1)] obtain qt where qt: "round64 qt = Fin t" by blast
    from round64_grid[OF qt] obtain kt :: int where kt: "t = of_int kt * power_int 2 (- 1074)" by blast
    have tmin: "power_int 2 (- 1074) \<le> t" by (rule grid_pos_min[OF kt t(2)])
    have nxt: "radii_loop B (Fin r) acc = radii_loop B (round64 (r - t)) (acc @ [Fin r])"
      using True by (simp add: radii_loop_go t(1) fsub_Fin)
    from sub_step[OF tmin round64_lt[OF less.prems(1)] less.prems(2)]
    show ?thesis
    proof
      assume "\<not> fgt (round64 (r - t)) zero"
      then show ?thesis by (simp add: nxt radii_loop_stop)
    next
      assume "\<exists>v. round64 (r - t) = Fin v \<and> 0 < v \<and> v < r"
      then obtain v where v: "round64 (r - t) = Fin v" "0 < v" "v < r" by blast
      from round64_grid[OF v(1)] obtain kv :: int where kv: "v = of_int kv * power_int 2 (- 1074)" by blast
      from round64_grid[OF less.prems(1)] obtain kr :: int where kr: "r = of_int kr * power_int 2 (- 1074)" by blast
      have "of_int kv * power_int (2::rat) (- 1074) < of_int kr * power_int 2 (- 1074)"
        using v(3) kv kr by simp
      then have "(of_int kv :: rat) < of_int kr" by (simp del: power_int_minus power_int_numeral)
      then have "kv < kr" by simp
      moreover have "0 < kr" using rpos kr by (simp add: zero_less_mult_iff del: power_int_minus power_int_numeral)
      ultimately have "nat \<lfloor>v * power_int 2 1074\<rfloor> < nat \<lfloor>r * power_int 2 1074\<rfloor>"
        unfolding grid_floor[OF kv] grid_floor[OF kr] by simp
      from less.hyps[OF this v(1)] v(3) less.prems(2)
      have "\<exists>rs. radii_loop B (Fin v) (acc @ [Fin r]) = Some rs" by simp
      then show ?thesis by (simp add: nxt v(1))
    qed
  qed
qed

lemma radii_loop_Some_not_stuck:
  assumes "radii_loop B dr acc = Some rs"
  shows "\<not> (fgt dr zero \<and> fsub dr (fmul c0_45 B) = dr)"
proof (rule radii_loop.raw_induct
    [where P = "\<lambda>B dr acc rs. \<not> (fgt dr zero \<and> fsub dr (fmul c0_45 B) = dr)", OF _ assms])
  fix f B dr acc rs
  assume IH: "\<And>B dr acc rs. f B dr acc = Some rs \<Longrightarrow> \<not> (fgt dr zero \<and> fsub dr (fmul c0_45 B) = dr)"
    and eq: "(if fgt dr zero then f B (fsub dr (fmul c0_45 B)) (acc @ [dr]) else Some acc) = Some rs"
  show "\<not> (fgt dr zero \<and> fsub dr (fmul c0_45 B) = dr)"
  proof
    assume stuck: "fgt dr zero \<and> fsub dr (fmul c0_45 B) = dr"
    with eq have "f B dr (acc @ [dr]) = Some rs" by simp
    from IH[OF this] stuck show False by simp
  qed
qed

lemma radii_loop_stuck:
  assumes "fgt dr zero" and "fsub dr (fmul c0_45 B) = dr"
  shows "radii_loop B dr acc = None"
proof (cases "radii_loop B dr acc")
  case None
  then show ?thesis .
next
  case (Some rs)
  from radii_loop_Some_not_stuck[OF this] assms show ?thesis by simp
qed

lemma radius_at_0: "radius_at B R 0 = R"
  by (simp add: radius_at_def)

lemma radius_at_Suc: "radius_at B R (Suc k) = radius_at B (fsub R (fmul c0_45 B)) k"
  by (simp add: radius_at_def funpow_Suc_right del: funpow.simps)

lemma radii_loop_Some:
  assumes "radii_loop B dr acc = Some rs"
  shows "\<exists>n. rs = acc @ map (radius_at B dr) [0..<n] \<and>
         (\<forall>k<n. fgt (radius_at B dr k) zero) \<and> \<not> fgt (radius_at B dr n) zero"
proof (rule radii_loop.raw_induct
    [where P = "\<lambda>B dr acc rs. \<exists>n. rs = acc @ map (radius_at B dr) [0..<n] \<and>
         (\<forall>k<n. fgt (radius_at B dr k) zero) \<and> \<not> fgt (radius_at B dr n) zero", OF _ assms])
  fix f B dr acc rs
  assume IH: "\<And>B dr acc rs. f B dr acc = Some rs \<Longrightarrow>
       \<exists>n. rs = acc @ map (radius_at B dr) [0..<n] \<and>
         (\<forall>k<n. fgt (radius_at B dr k) zero) \<and> \<not> fgt (radius_at B dr n) zero"
    and eq: "(if fgt dr zero then f B (fsub dr (fmul c0_45 B)) (acc @ [dr]) else Some acc) = Some rs"
  show "\<exists>n. rs = acc @ map (radius_at B dr) [0..<n] \<and>
         (\<forall>k<n. fgt (radius_at B dr k) zero) \<and> \<not> fgt (radius_at B dr n) zero"
  proof (cases "fgt dr zero")
    case False
    with eq have "rs = acc" by simp
    with False have "rs = acc @ map (radius_at B dr) [0..<0] \<and>
         (\<forall>k<0. fgt (radius_at B dr k) zero) \<and> \<not> fgt (radius_at B dr 0) zero"
      by (simp add: radius_at_0)
    then show ?thesis by blast
  next
    case True
    let ?d = "fsub dr (fmul c0_45 B)"
    from True eq have "f B ?d (acc @ [dr]) = Some rs" by simp
    from IH[OF this] obtain n where n: "rs = (acc @ [dr]) @ map (radius_at B ?d) [0..<n]"
      "\<forall>k<n. fgt (radius_at B ?d k) zero" "\<not> fgt (radius_at B ?d n) zero" by blast
    have m: "map (radius_at B dr) [0..<Suc n] = dr # map (radius_at B ?d) [0..<n]"
      by (simp add: upt_conv_Cons map_Suc_upt[symmetric] radius_at_0 radius_at_Suc del: upt_Suc)
    have p: "\<forall>k<Suc n. fgt (radius_at B dr k) zero"
    proof (intro allI impI)
      fix k assume "k < Suc n"
      then show "fgt (radius_at B dr k) zero"
        using True n(2) by (cases k) (simp_all add: radius_at_0 radius_at_Suc)
    qed
    have "rs = acc @ map (radius_at B dr) [0..<Suc n]" using n(1) m by simp
    moreover have "\<not> fgt (radius_at B dr (Suc n)) zero" using n(3) by (simp add: radius_at_Suc)
    ultimately show ?thesis using p by blast
  qed
qed


text \<open>
  While the values stay above zero they are floats, strictly falling, as long as the
  step is positive and the first radius is at most \<open>2^53\<close> steps.
\<close>

lemma radius_at_step: "radius_at B R (Suc k) = fsub (radius_at B R k) (fmul c0_45 B)"
  by (simp add: radius_at_def)

lemma positive_prefix:
  assumes t: "fmul c0_45 B = Fin t" "0 < t"
    and r: "round64 q = Fin r" "r \<le> 2 ^ 53 * t"
    and pos: "\<forall>j\<le>k. fgt (radius_at B (Fin r) j) zero"
  shows "\<exists>v q'. radius_at B (Fin r) k = Fin v \<and> round64 q' = Fin v \<and> v \<le> r \<and> 0 < v \<and>
           (\<forall>j<k. flt (radius_at B (Fin r) k) (radius_at B (Fin r) j))"
  using pos
proof (induction k)
  case 0
  then have "0 < r" by (simp add: radius_at_0 fgt_Fin_zero)
  with r(1) show ?case by (auto simp: radius_at_0)
next
  case (Suc k)
  then have "\<forall>j\<le>k. fgt (radius_at B (Fin r) j) zero" by simp
  from Suc.IH[OF this] obtain v q' where v: "radius_at B (Fin r) k = Fin v" "round64 q' = Fin v"
    "v \<le> r" "0 < v" "\<forall>j<k. flt (radius_at B (Fin r) k) (radius_at B (Fin r) j)" by blast
  from fmul_Fin[OF t(1)] obtain qt where qt: "round64 qt = Fin t" by blast
  from round64_grid[OF qt] obtain kt :: int where kt: "t = of_int kt * power_int 2 (- 1074)" by blast
  have tmin: "power_int 2 (- 1074) \<le> t" by (rule grid_pos_min[OF kt t(2)])
  have vb: "v \<le> 2 ^ 53 * t" using v(3) r(2) by simp
  have nxt: "radius_at B (Fin r) (Suc k) = round64 (v - t)"
    by (simp add: radius_at_step v(1) t(1) fsub_Fin)
  from Suc.prems have "fgt (radius_at B (Fin r) (Suc k)) zero" by simp
  with sub_step[OF tmin round64_lt[OF v(2)] vb] nxt
  obtain v' where v': "round64 (v - t) = Fin v'" "0 < v'" "v' < v" by auto
  have "\<forall>j<Suc k. flt (Fin v') (radius_at B (Fin r) j)"
  proof (intro allI impI)
    fix j assume "j < Suc k"
    then consider "j = k" | "j < k" by linarith
    then show "flt (Fin v') (radius_at B (Fin r) j)"
    proof cases
      case 1
      then show ?thesis using v' v(1) by simp
    next
      case 2
      with v(5) have "flt (Fin v) (radius_at B (Fin r) j)" by (simp add: v(1))
      then show ?thesis using v'(3) by (cases "radius_at B (Fin r) j") auto
    qed
  qed
  with v' v(3) nxt show ?case by (intro exI[of _ v'] exI[of _ "v - t"]) auto
qed

lemma radii_decreasing:
  assumes t: "fmul c0_45 B = Fin t" "0 < t"
    and r: "round64 q = Fin r" "r \<le> 2 ^ 53 * t"
    and pos: "\<forall>k<n. fgt (radius_at B (Fin r) k) zero"
  shows "sorted_wrt flt (rev (map (radius_at B (Fin r)) [0..<n]))"
proof -
  have "\<forall>i j. i < j \<longrightarrow> j < n \<longrightarrow> flt (radius_at B (Fin r) j) (radius_at B (Fin r) i)"
  proof (intro allI impI)
    fix i j assume ij: "i < j" "j < n"
    with pos have "\<forall>k\<le>j. fgt (radius_at B (Fin r) k) zero" by simp
    from positive_prefix[OF t r this] ij(1) show "flt (radius_at B (Fin r) j) (radius_at B (Fin r) i)"
      by blast
  qed
  then have "sorted_wrt (\<lambda>x y. flt y x) (map (radius_at B (Fin r)) [0..<n])"
    by (simp add: sorted_wrt_iff_nth_less)
  then show ?thesis by (simp only: sorted_wrt_rev)
qed

lemma radii_of_Some: "radii_loop B R [] = Some rs \<Longrightarrow> radii_of B R = rs"
  by (simp add: radii_of_def)

lemma hole_radii:
  assumes t: "fmul c0_45 B = Fin t" "0 < t"
    and r: "is_f64 (Fin r)" "r \<le> 2 ^ 53 * t"
  shows "radii_loop B (Fin r) [] = Some (radii_of B (Fin r)) \<and>
         is_radius_list B (Fin r) (radii_of B (Fin r)) \<and>
         sorted_wrt flt (rev (radii_of B (Fin r)))"
proof -
  from r(1) have q: "round64 r = Fin r" by simp
  from radii_loop_terminates[OF t q r(2)] obtain rs where rs: "radii_loop B (Fin r) [] = Some rs"
    by blast
  from radii_loop_Some[OF rs] obtain n where n: "rs = map (radius_at B (Fin r)) [0..<n]"
    "\<forall>k<n. fgt (radius_at B (Fin r) k) zero" "\<not> fgt (radius_at B (Fin r) n) zero" by auto
  have l: "length rs = n" by (simp add: n(1))
  have "is_radius_list B (Fin r) rs"
    unfolding is_radius_list_def l using n by (simp add: list_all_iff)
  moreover have "sorted_wrt flt (rev rs)"
    unfolding n(1) by (rule radii_decreasing[OF t q r(2) n(2)])
  ultimately show ?thesis using rs by (simp add: radii_of_Some)
qed

lemma within_reach_cases:
  assumes "within_reach B R"
  obtains "\<not> fgt R zero"
  | t r where "fmul c0_45 B = Fin t" "0 < t" "R = Fin r" "is_f64 (Fin r)" "r \<le> 2 ^ 53 * t"
  using assms by (auto simp: within_reach_def split: f64.splits)

lemma reach_radii:
  assumes "within_reach B R"
  shows "radii_loop B R [] = Some (radii_of B R) \<and>
         is_radius_list B R (radii_of B R) \<and>
         sorted_wrt flt (rev (radii_of B R))"
  using assms
proof (cases rule: within_reach_cases)
  case 1
  then have "radii_loop B R [] = Some []" by (rule radii_loop_stop)
  then show ?thesis using 1 by (simp add: radii_of_Some is_radius_list_def radius_at_0)
next
  case (2 t r)
  with hole_radii[OF 2(1,2,4,5)] show ?thesis by simp
qed

lemma draw_hole_radii:
  "radii_loop B (Radius h) [] = Some (radii_of B (Radius h)) \<Longrightarrow>
     draw_hole B h = Some (map (Circle (Cx h) (Cy h)) (rev (radii_of B (Radius h))))"
  by (simp add: draw_hole_def)

lemma draw_holes_concat:
  "\<forall>h\<in>set hs. radii_loop B (Radius h) [] = Some (radii_of B (Radius h)) \<Longrightarrow>
     draw_holes B hs =
       Some (concat (map (\<lambda>h. map (Circle (Cx h) (Cy h)) (rev (radii_of B (Radius h)))) hs))"
  by (induction hs) (simp_all add: draw_hole_radii)

section \<open>The reading loop\<close>

lemma step_METRIC: "step sc B st ''METRIC'' = Inr (st\<lparr>factor := one\<rparr>)"
  by (simp add: step_def)

lemma step_INCH: "step sc B st ''INCH'' = Inr (st\<lparr>factor := c25_4\<rparr>)"
  by (simp add: step_def)

lemma step_tool:
  "line \<noteq> ''METRIC'' \<Longrightarrow> line \<noteq> ''INCH'' \<Longrightarrow> scan_tool sc line = Some (tool, param1) \<Longrightarrow>
     step sc B st line = define_tool B st line tool param1"
  by (simp add: step_def)

lemma step_select:
  "line \<noteq> ''METRIC'' \<Longrightarrow> line \<noteq> ''INCH'' \<Longrightarrow> scan_tool sc line = None \<Longrightarrow>
   map_of (tools st) line = Some d \<Longrightarrow>
     step sc B st line = Inr (st\<lparr>toolRadius := fmul (fsub d B) half\<rparr>)"
  by (simp add: step_def)

lemma step_coord:
  "line \<noteq> ''METRIC'' \<Longrightarrow> line \<noteq> ''INCH'' \<Longrightarrow> scan_tool sc line = None \<Longrightarrow>
   map_of (tools st) line = None \<Longrightarrow> scan_coord sc line = Some (param1, param2) \<Longrightarrow>
     step sc B st line = Inr (add_hole st (fmul param1 (factor st)) (fmul param2 (factor st)))"
  by (simp add: step_def)

lemma step_ignored:
  "line \<noteq> ''METRIC'' \<Longrightarrow> line \<noteq> ''INCH'' \<Longrightarrow> scan_tool sc line = None \<Longrightarrow>
   map_of (tools st) line = None \<Longrightarrow> scan_coord sc line = None \<Longrightarrow>
     step sc B st line = Inr st"
  by (simp add: step_def)

lemma parse_append:
  "parse sc B st (xs @ ys) =
     (case parse sc B st xs of Inl e \<Rightarrow> Inl e | Inr st' \<Rightarrow> parse sc B st' ys)"
  by (induction xs arbitrary: st) (auto split: sum.splits)

text \<open>The four edges are always the extent of the holes read so far.\<close>

lemma extent_of_snoc: "extent_of (hs @ [h]) = grow (hs = []) (extent_of hs) h"
  by (simp add: extent_of_def)

lemma add_hole_extent:
  "extent (add_hole st cx cy) =
     grow (holes st = []) (extent st) \<lparr>Radius = toolRadius st, Cx = cx, Cy = cy\<rparr>"
  by (simp add: add_hole_def extent_def grow_def)

lemma add_hole_holes:
  "holes (add_hole st cx cy) = holes st @ [\<lparr>Radius = toolRadius st, Cx = cx, Cy = cy\<rparr>]"
  by (simp add: add_hole_def)

lemma define_tool_holes:
  "define_tool B st l n p = Inr st' \<Longrightarrow> holes st' = holes st \<and> extent st' = extent st"
  by (auto simp: define_tool_def extent_def split: if_splits)

lemma step_holes:
  "step sc B st l = Inr st' \<Longrightarrow>
     (\<exists>cx cy. st' = add_hole st cx cy) \<or> (holes st' = holes st \<and> extent st' = extent st)"
  unfolding step_def
  by (auto simp: extent_def split: if_splits option.splits dest: define_tool_holes)

lemma step_extent:
  assumes "step sc B st l = Inr st'" and "extent st = extent_of (holes st)"
  shows "extent st' = extent_of (holes st')"
  using step_holes[OF assms(1)]
proof
  assume "\<exists>cx cy. st' = add_hole st cx cy"
  then obtain cx cy where "st' = add_hole st cx cy" by blast
  then show ?thesis
    using assms(2) by (simp add: add_hole_extent add_hole_holes extent_of_snoc)
next
  assume "holes st' = holes st \<and> extent st' = extent st"
  then show ?thesis using assms(2) by simp
qed

lemma parse_extent:
  "parse sc B st ls = Inr st' \<Longrightarrow> extent st = extent_of (holes st) \<Longrightarrow>
     extent st' = extent_of (holes st')"
proof (induction ls arbitrary: st)
  case Nil
  then show ?case by simp
next
  case (Cons l ls)
  then obtain st1 where s1: "step sc B st l = Inr st1" and p: "parse sc B st1 ls = Inr st'"
    by (auto split: sum.splits)
  from Cons.IH[OF p step_extent[OF s1 Cons.prems(2)]] show ?case .
qed

lemma extent_init: "extent init_state = extent_of (holes init_state)"
  by (simp add: extent_def extent_of_def init_state_def)


text \<open>Without a hole the edges are untouched; without a tool so is the largest diameter.\<close>

lemma step_holes_empty:
  "step sc B st l = Inr st' \<Longrightarrow> holes st' = [] \<Longrightarrow> holes st = [] \<and> extent st' = extent st"
  using step_holes[of sc B st l st'] by (auto simp: add_hole_holes)

lemma parse_holes_empty:
  "parse sc B st ls = Inr st' \<Longrightarrow> holes st' = [] \<Longrightarrow> holes st = [] \<and> extent st' = extent st"
proof (induction ls arbitrary: st)
  case Nil
  then show ?case by simp
next
  case (Cons l ls)
  then obtain st1 where s1: "step sc B st l = Inr st1" and p: "parse sc B st1 ls = Inr st'"
    by (auto split: sum.splits)
  from Cons.IH[OF p Cons.prems(2)] have "holes st1 = []" "extent st' = extent st1" by auto
  with step_holes_empty[OF s1] show ?case by simp
qed

lemma update_not_Nil: "AList.update k v al \<noteq> []"
  by (cases al) auto

lemma define_tool_tools: "define_tool B st l n p = Inr st' \<Longrightarrow> tools st' \<noteq> []"
  by (auto simp: define_tool_def update_not_Nil split: if_splits)

lemma step_tools_empty:
  "step sc B st l = Inr st' \<Longrightarrow> tools st' = [] \<Longrightarrow>
     tools st = [] \<and> maxToolDiameter st' = maxToolDiameter st"
  unfolding step_def
  by (auto simp: add_hole_def split: if_splits option.splits dest: define_tool_tools)

lemma parse_tools_empty:
  "parse sc B st ls = Inr st' \<Longrightarrow> tools st' = [] \<Longrightarrow>
     tools st = [] \<and> maxToolDiameter st' = maxToolDiameter st"
proof (induction ls arbitrary: st)
  case Nil
  then show ?case by simp
next
  case (Cons l ls)
  then obtain st1 where s1: "step sc B st l = Inr st1" and p: "parse sc B st1 ls = Inr st'"
    by (auto split: sum.splits)
  from Cons.IH[OF p Cons.prems(2)] have "tools st1 = []" "maxToolDiameter st' = maxToolDiameter st1" by auto
  with step_tools_empty[OF s1] show ?case by simp
qed

lemma fsub_zero_zero: "fsub zero zero = zero" "fadd zero zero = zero"
  by (simp_all add: fsub_def zero_def round64_def)

text \<open>Only the selection of a tool changes the selected radius.\<close>

lemma define_tool_toolRadius:
  "define_tool B st l n p = Inr st' \<Longrightarrow> toolRadius st' = toolRadius st"
  by (auto simp: define_tool_def split: if_splits)

lemma step_no_selection:
  "step sc B st l = Inr st' \<Longrightarrow> \<not> is_selection sc st l \<Longrightarrow> toolRadius st' = toolRadius st"
  unfolding step_def is_selection_def
  by (auto simp: add_hole_def split: if_splits option.splits dest: define_tool_toolRadius)

lemma parse_no_selection:
  "parse sc B st ls = Inr st' \<Longrightarrow> no_selection sc B st ls \<Longrightarrow> toolRadius st' = toolRadius st"
proof (induction ls arbitrary: st)
  case Nil
  then show ?case by simp
next
  case (Cons l ls)
  then obtain st1 where s1: "step sc B st l = Inr st1" and p: "parse sc B st1 ls = Inr st'"
    by (auto split: sum.splits)
  from Cons.prems(2) s1 have n: "\<not> is_selection sc st l" "no_selection sc B st1 ls" by simp_all
  from Cons.IH[OF p n(2)] step_no_selection[OF s1 n(1)] show ?case by simp
qed

text \<open>Every key of the tool table was written by \<^verbatim>\<open>fmt.Sprint("T", tool)\<close>, and no integer
  prints with a leading zero.\<close>

lemma define_tool_tools_eq:
  "define_tool B st l n p = Inr st' \<Longrightarrow>
     tools st' = AList.update (sprint_T n) (fmul p (factor st)) (tools st)"
  by (auto simp: define_tool_def split: if_splits)

lemma define_tool_key:
  "define_tool B st l n p = Inr st' \<Longrightarrow>
     map_of (tools st') (sprint_T n) = Some (fmul p (factor st))"
  by (simp add: define_tool_tools_eq update_conv')

lemma define_tool_keys:
  "define_tool B st l n p = Inr st' \<Longrightarrow> fst ` set (tools st') = insert (sprint_T n) (fst ` set (tools st))"
  by (simp add: define_tool_tools_eq dom_update)

lemma step_tools:
  "step sc B st l = Inr st' \<Longrightarrow>
     tools st' = tools st \<or> (\<exists>n p. define_tool B st l n p = Inr st')"
  unfolding step_def
  by (auto simp: add_hole_def split: if_splits option.splits)

lemma step_keys:
  assumes "step sc B st l = Inr st'" and "fst ` set (tools st) \<subseteq> range sprint_T"
  shows "fst ` set (tools st') \<subseteq> range sprint_T"
  using step_tools[OF assms(1)]
proof
  assume "tools st' = tools st"
  with assms(2) show ?thesis by simp
next
  assume "\<exists>n p. define_tool B st l n p = Inr st'"
  then obtain n p where "define_tool B st l n p = Inr st'" by blast
  from define_tool_keys[OF this] assms(2) show ?thesis by auto
qed

lemma parse_keys:
  "parse sc B st ls = Inr st' \<Longrightarrow> fst ` set (tools st) \<subseteq> range sprint_T \<Longrightarrow>
     fst ` set (tools st') \<subseteq> range sprint_T"
proof (induction ls arbitrary: st)
  case Nil
  then show ?case by simp
next
  case (Cons l ls)
  then obtain st1 where s1: "step sc B st l = Inr st1" and p: "parse sc B st1 ls = Inr st'"
    by (auto split: sum.splits)
  from Cons.IH[OF p step_keys[OF s1 Cons.prems(2)]] show ?case .
qed

lemma digit_char_0: "n < 10 \<Longrightarrow> digit_char n = CHR ''0'' \<Longrightarrow> n = 0"
proof -
  assume n: "n < 10" and "digit_char n = CHR ''0''"
  then have "of_char (char_of (48 + n) :: char) = (of_char CHR ''0'' :: nat)"
    by (simp add: digit_char_def)
  then show "n = 0" using n by simp
qed

lemma show_nat_small: "n < 10 \<Longrightarrow> show_nat n = [digit_char n]"
  by (subst show_nat.simps) simp

lemma show_nat_large: "\<not> n < 10 \<Longrightarrow> show_nat n = show_nat (n div 10) @ [digit_char (n mod 10)]"
  by (subst show_nat.simps) simp

text \<open>\<^verbatim>\<open>fmt.Sprint\<close> writes the decimal rendering of the integer.\<close>

lemma digit_char_table:
  "\<forall>k\<in>set [0..<10]. is_digit (digit_char k) \<and> digit_val (digit_char k) = int k"
  by code_simp

lemma digit_char_cases:
  assumes "k < 10"
  shows "is_digit (digit_char k) \<and> digit_val (digit_char k) = int k"
proof -
  from assms have "k \<in> set [0..<10]" by simp
  with digit_char_table show ?thesis by blast
qed

lemma read_digits_snoc: "read_digits (ds @ [c]) = 10 * read_digits ds + digit_val c"
  by (simp add: read_digits_def)

lemma show_nat_decimal: "decimal_digits (int m) (show_nat m)"
proof (induction m rule: show_nat.induct)
  case (1 n)
  show ?case
  proof (cases "n < 10")
    case True
    with digit_char_cases[OF True] digit_char_0[of n] show ?thesis
      by (auto simp: decimal_digits_def show_nat_small read_digits_def simp del: show_nat.simps)
  next
    case False
    from 1[OF False] have ih: "decimal_digits (int (n div 10)) (show_nat (n div 10))" .
    have d: "n mod 10 < 10" by simp
    let ?p = "show_nat (n div 10)"
    from ih have ne: "?p \<noteq> []" and dg: "list_all is_digit ?p"
      and rd: "read_digits ?p = int (n div 10)"
      and z: "hd ?p = CHR ''0'' \<longrightarrow> ?p = ''0''"
      by (simp_all add: decimal_digits_def)
    have nz: "hd ?p \<noteq> CHR ''0''"
    proof
      assume "hd ?p = CHR ''0''"
      with z have "?p = ''0''" by simp
      with rd have "int (n div 10) = 0" by (simp add: read_digits_def digit_val_def)
      with False show False by simp
    qed
    have "10 * int (n div 10) + int (n mod 10) = int n" by presburger
    with rd digit_char_cases[OF d]
    have "read_digits (?p @ [digit_char (n mod 10)]) = int n"
      by (simp add: read_digits_snoc del: show_nat.simps)
    then show ?thesis
      using ne dg nz digit_char_cases[OF d]
      by (simp add: decimal_digits_def show_nat_large[OF False] del: show_nat.simps)
  qed
qed

lemma show_int_decimal: "is_decimal_of n (show_int n)"
proof (cases "n < 0")
  case True
  then have "int (nat (- n)) = - n" by simp
  with show_nat_decimal[of "nat (- n)"] have "decimal_digits (- n) (show_nat (nat (- n)))"
    by simp
  with True show ?thesis by (simp add: is_decimal_of_def show_int_def)
next
  case False
  then have "int (nat n) = n" by simp
  with show_nat_decimal[of "nat n"] have "decimal_digits n (show_nat (nat n))" by simp
  with False show ?thesis by (simp add: is_decimal_of_def show_int_def)
qed

text \<open>What \<^verbatim>\<open>Sscanf\<close> makes of \<^verbatim>\<open>T\<close> followed by digits, with and without the rest of a
  tool definition.\<close>

lemma is_digit_chars:
  "is_digit c \<Longrightarrow> c \<noteq> CHR 0x0A \<and> \<not> is_space c \<and> c \<noteq> CHR ''-'' \<and> c \<noteq> CHR ''+'' \<and> c \<noteq> CHR ''_'' \<and> c \<noteq> CHR ''C'' \<and> is_digit_us c"
  by (auto simp: is_digit_def is_space_def is_digit_us_def)

lemma read_digits_nonneg: "list_all is_digit ds \<Longrightarrow> 0 \<le> read_digits ds"
proof (induction ds rule: rev_induct)
  case Nil
  show ?case by (simp add: read_digits_def)
next
  case (snoc c ds)
  then have "is_digit c" "0 \<le> read_digits ds" by simp_all
  moreover from \<open>is_digit c\<close> have "0 \<le> digit_val c" by (auto simp: is_digit_def digit_val_def)
  ultimately show ?case by (simp add: read_digits_snoc)
qed

lemma skip_space_suffix: "skip_space s = Some r \<Longrightarrow> set r \<subseteq> set s"
  by (induction s) (auto split: if_splits)

lemma take_sign_suffix: "take_sign s = (sg, r) \<Longrightarrow> set r \<subseteq> set s"
  by (cases s) (auto split: if_splits)

lemma scan_d_suffix: "scan_d s = Some (n, r) \<Longrightarrow> set r \<subseteq> set s"
proof -
  assume a: "scan_d s = Some (n, r)"
  then obtain s1 where s1: "skip_space s = Some s1" by (auto simp: scan_d_def split: option.splits)
  obtain sg s2 where s2: "take_sign s1 = (sg, s2)" by (cases "take_sign s1")
  from a s1 s2 have "r = dropWhile is_digit_us s2"
    by (auto simp: scan_d_def int_of_token_def split: if_splits)
  then have "set r \<subseteq> set s2" by (auto dest: set_dropWhileD)
  with skip_space_suffix[OF s1] take_sign_suffix[OF s2] show ?thesis by blast
qed

lemma literal_Some: "literal c s = Some r \<Longrightarrow> c \<in> set s"
  by (cases s) (auto split: if_splits)

lemma bare_tool_line: "CHR ''C'' \<notin> set s \<Longrightarrow> sscanf_TdCf (CHR ''T'' # s) = None"
  by (auto simp: sscanf_TdCf_def split: option.splits dest!: scan_d_suffix literal_Some)

lemma bare_tool_coord: "sscanf_XfYf (CHR ''T'' # s) = None"
  by (simp add: sscanf_XfYf_def)

lemma scan_d_digits:
  assumes "ds \<noteq> []" and "list_all is_digit ds" and "read_digits ds < 2 ^ 63"
    and "\<not> is_digit_us c"
  shows "scan_d (ds @ c # r) = Some (read_digits ds, c # r)"
proof -
  from assms(1) obtain d ds' where ds: "ds = d # ds'" by (cases ds) auto
  with assms(2) have d: "is_digit d" by simp
  have a: "skip_space (ds @ c # r) = Some (ds @ c # r)"
    using is_digit_chars[OF d] by (simp add: ds)
  have b: "take_sign (ds @ c # r) = (1, ds @ c # r)"
    using is_digit_chars[OF d] by (simp add: ds)
  have all: "\<And>x. x \<in> set ds \<Longrightarrow> is_digit_us x"
    using assms(2) by (auto simp: list_all_iff is_digit_chars)
  have t: "takeWhile is_digit_us (ds @ c # r) = ds"
    using all assms(4) by (simp add: takeWhile_append2)
  have dr: "dropWhile is_digit_us (ds @ c # r) = c # r"
    using all assms(4) by (simp add: dropWhile_append2)
  have u: "CHR ''_'' \<notin> set ds"
    using assms(2) by (auto simp: list_all_iff dest: is_digit_chars)
  from read_digits_nonneg[OF assms(2)] assms(3) have rg: "\<not> (read_digits ds < - (2 ^ 63) \<or> 2 ^ 63 \<le> read_digits ds)"
    by simp
  show ?thesis
    using assms(1) u rg by (simp add: scan_d_def a b t dr int_of_token_def)
qed

lemma scan_tool_digits:
  assumes "ds \<noteq> []" and "list_all is_digit ds" and "read_digits ds < 2 ^ 63"
    and "scan_f ftext = Some (p, rest)"
  shows "scan_tool go_scanner (CHR ''T'' # ds @ CHR ''C'' # ftext) = Some (read_digits ds, p)"
proof -
  have "\<not> is_digit_us CHR ''C''" by (simp add: is_digit_us_def is_digit_def)
  from scan_d_digits[OF assms(1-3) this, of ftext] assms(4) show ?thesis
    by (simp add: go_scanner_def sscanf_TdCf_def)
qed

lemma show_int_chars: "c \<in> set (show_int n) \<Longrightarrow> is_digit c \<or> c = CHR ''-''"
  using show_nat_decimal[of "nat n"] show_nat_decimal[of "nat (- n)"]
  by (auto simp: show_int_def decimal_digits_def list_all_iff split: if_splits)

lemma key_selects_scan: "scan_tool go_scanner (sprint_T n) = None"
proof -
  have "CHR ''C'' \<notin> set (show_int n)"
    using show_int_chars[of "CHR ''C''" n] by (auto simp: is_digit_def)
  then show ?thesis by (simp add: go_scanner_def sprint_T_def bare_tool_line)
qed

lemma leading_zeros_not_key:
  assumes "leading_zeros ds"
  shows "CHR ''T'' # ds \<notin> range sprint_T"
proof
  assume "CHR ''T'' # ds \<in> range sprint_T"
  then obtain n where n: "ds = show_int n" by (auto simp: sprint_T_def)
  from assms have dg: "list_all is_digit ds" and l: "1 < length ds" and z: "hd ds = CHR ''0''"
    by (simp_all add: leading_zeros_def)
  have "\<not> n < 0"
  proof
    assume "n < 0"
    with n z show False by (simp add: show_int_def)
  qed
  with show_int_decimal[of n] n have "decimal_digits n ds" by (simp add: is_decimal_of_def)
  with z l show False by (auto simp: decimal_digits_def)
qed

lemma leading_zeros_line:
  assumes "leading_zeros ds"
  shows "scan_tool go_scanner (CHR ''T'' # ds) = None" "scan_coord go_scanner (CHR ''T'' # ds) = None"
proof -
  from assms have "CHR ''C'' \<notin> set ds"
    by (auto simp: leading_zeros_def list_all_iff dest: is_digit_chars)
  then show "scan_tool go_scanner (CHR ''T'' # ds) = None"
    by (simp add: go_scanner_def bare_tool_line)
  show "scan_coord go_scanner (CHR ''T'' # ds) = None"
    by (simp add: go_scanner_def bare_tool_coord)
qed


lemma scan_tool_line:
  "scan_tool go_scanner line = Some (n, p) \<Longrightarrow> line \<noteq> ''METRIC'' \<and> line \<noteq> ''INCH''"
  by (cases line) (auto simp: go_scanner_def sscanf_TdCf_def split: if_splits)

lemma leading_zeros_ignored:
  assumes "fst ` set (tools st) \<subseteq> range sprint_T" and "leading_zeros ds"
  shows "map_of (tools st) (CHR ''T'' # ds) = None \<and> step go_scanner B st (CHR ''T'' # ds) = Inr st"
proof -
  from leading_zeros_not_key[OF assms(2)] assms(1)
  have "CHR ''T'' # ds \<notin> fst ` set (tools st)" by blast
  then have m0: "map_of (tools st) (CHR ''T'' # ds) = None" by (simp add: map_of_eq_None_iff)
  have "step go_scanner B st (CHR ''T'' # ds) = Inr st"
    by (rule step_ignored) (simp_all add: leading_zeros_line[OF assms(2)] m0)
  with m0 show ?thesis by simp
qed






section \<open>Facts of float64 arithmetic used below\<close>

lemma fle_not_fgt: "fle a b \<Longrightarrow> \<not> fgt a b"
  by (simp add: fle_def fgt_def)

lemma fsub_self: "fsub (Fin b) (Fin b) = zero"
  by (simp add: fsub_def round64_def zero_def)

lemma fmul_zero_half: "fmul zero half = zero"
  by (simp add: zero_def half_def round64_def)

lemma round64_9: "round64 9 = Fin 9"
  by code_simp

lemma round64_11: "round64 11 = Fin 11"
  by code_simp

lemma round64_6: "round64 6 = Fin 6"
  by code_simp

lemma round64_14: "round64 14 = Fin 14"
  by code_simp

lemma c0_45_value: "c0_45 = Fin (8106479329266893 / 18014398509481984)"
  by code_simp

lemma step_default: "fmul c0_45 bitSize_default = Fin (5674535530486825 / 18014398509481984)"
  by code_simp

lemma step_zero: "fmul c0_45 zero = zero"
  by (simp add: c0_45_value zero_def round64_def)

lemma fsub_zero_right: "is_f64 R \<Longrightarrow> fsub R zero = R"
  by (cases R) (simp_all add: fsub_def zero_def)

lemma zero_bit_hangs: "is_f64 R \<Longrightarrow> fgt R zero \<Longrightarrow> radii_loop zero R acc = None"
  by (rule radii_loop_stuck) (simp_all add: step_zero fsub_zero_right)

lemma is_f64_one: "is_f64 one"
  by code_simp

lemma fgt_one: "fgt one zero"
  by (simp add: fgt_def one_def zero_def)

lemma is_f64_radius_92: "is_f64 (Fin (8286623314361713 / 9007199254740992))"
  by code_simp

lemma radii_92:
  "radii_of bitSize_default (Fin (8286623314361713 / 9007199254740992)) =
     [Fin (8286623314361713 / 9007199254740992), Fin (1362338887279575 / 2251799813685248),
      Fin (5224175567749775 / 18014398509481984)]"
  by code_simp

lemma reach_92: "within_reach bitSize_default (Fin (8286623314361713 / 9007199254740992))"
  by code_simp

lemma reach_0: "within_reach bitSize_default (Fin 0)"
  by (simp add: within_reach_def fgt_Fin_zero)

lemma radii_0: "radii_of B (Fin 0) = []"
  by (simp add: radii_of_def radii_loop_stop fgt_Fin_zero)

text \<open>\<open>9007199254740992\<close> is \<open>2^53\<close>: the floats from there on are two apart.\<close>

lemma absorbed:
  "fsub (Fin 9007199254740992) (fmul c0_45 bitSize_default) = Fin 9007199254740992"
  by code_simp

lemma is_f64_2_53: "is_f64 (Fin 9007199254740992)"
  by code_simp

lemma huge_hangs: "radii_loop bitSize_default (Fin 9007199254740992) acc = None"
  by (rule radii_loop_stuck[OF _ absorbed]) (simp add: fgt_Fin_zero)

section \<open>Runs on concrete files\<close>

text \<open>A metric file with one tool of 3 mm, a bit of 1 mm and one hole.\<close>

lemma run_one_hole:
  "parse go_scanner one init_state [''METRIC'', ''T1C3'', ''T1'', ''X10Y10''] =
     Inr \<lparr>tools = [(''T1'', Fin 3)], holes = [\<lparr>Radius = Fin 1, Cx = Fin 10, Cy = Fin 10\<rparr>],
          toolRadius = Fin 1, maxToolDiameter = Fin 3, factor = Fin 1,
          leftEdge = Fin 9, rightEdge = Fin 11, topEdge = Fin 9, bottomEdge = Fin 11\<rparr>"
  by code_simp

text \<open>A file with a tool and no hole, and a file with neither.\<close>

lemma run_tool_only:
  "parse go_scanner bitSize_default init_state [''METRIC'', ''T1C1.0''] =
     Inr \<lparr>tools = [(''T1'', Fin 1)], holes = [], toolRadius = Fin 0, maxToolDiameter = Fin 1,
          factor = Fin 1, leftEdge = Fin 0, rightEdge = Fin 0, topEdge = Fin 0,
          bottomEdge = Fin 0\<rparr>"
  by code_simp

lemma run_header_only:
  "parse go_scanner bitSize_default init_state [''M48'', ''METRIC''] =
     Inr \<lparr>tools = [], holes = [], toolRadius = Fin 0, maxToolDiameter = Fin 0,
          factor = Fin 1, leftEdge = Fin 0, rightEdge = Fin 0, topEdge = Fin 0,
          bottomEdge = Fin 0\<rparr>"
  by code_simp

lemma run_metric:
  "parse go_scanner bitSize_default init_state [''METRIC''] = Inr (init_state\<lparr>factor := one\<rparr>)"
  by (simp add: step_METRIC)

text \<open>A tool of \<open>2^54\<close> mm: the cut radius is \<open>2^53\<close>.\<close>

lemma run_huge_tool:
  "parse go_scanner bitSize_default init_state
       [''METRIC'', ''T1C18014398509481984'', ''T1'', ''X0Y0''] =
     Inr \<lparr>tools = [(''T1'', Fin 18014398509481984)],
          holes = [\<lparr>Radius = Fin 9007199254740992, Cx = Fin 0, Cy = Fin 0\<rparr>],
          toolRadius = Fin 9007199254740992, maxToolDiameter = Fin 18014398509481984,
          factor = Fin 1,
          leftEdge = Fin (- 9007199254740992), rightEdge = Fin 9007199254740992,
          topEdge = Fin (- 9007199254740992), bottomEdge = Fin 9007199254740992\<rparr>"
  by code_simp

text \<open>A bit of diameter zero.\<close>

lemma run_zero_bit:
  "parse go_scanner zero init_state [''METRIC'', ''T1C1'', ''T1'', ''X0Y0''] =
     Inr \<lparr>tools = [(''T1'', Fin 1)], holes = [\<lparr>Radius = Fin (1 / 2), Cx = Fin 0, Cy = Fin 0\<rparr>],
          toolRadius = Fin (1 / 2), maxToolDiameter = Fin 1, factor = Fin 1,
          leftEdge = Fin (- (1 / 2)), rightEdge = Fin (1 / 2), topEdge = Fin (- (1 / 2)),
          bottomEdge = Fin (1 / 2)\<rparr>"
  by code_simp

text \<open>The line \<^verbatim>\<open>T1\<close> is no tool definition.\<close>

lemma scan_T1: "scan_tool go_scanner ''T1'' = None"
  by code_simp

section \<open>The claims\<close>

subsection \<open>C1: the check of a tool diameter\<close>

text \<open>
  C1 says that a tool definition is checked by its scaled diameter, the raw diameter
  times the unit factor: fatal when that is below the bit diameter, accepted otherwise.
  The program compares the raw diameter \<^verbatim>\<open>param1\<close> with \<^verbatim>\<open>*bitSize\<close>, before it scales.  On
  the lines \<^verbatim>\<open>INCH\<close>, \<^verbatim>\<open>T1C0.1\<close> with the default bit of 0.7 mm the raw diameter is 0.1, the
  scaled diameter is 2.54 mm, which is not below 0.7, and the run ends in the fatal exit.
\<close>

theorem C1_raw_diameter_is_checked:
  "scan_tool go_scanner ''T1C0.1'' = Some (1, round64 (1 / 10)) \<and>
   fmul (round64 (1 / 10)) c25_4 = round64 (254 / 100) \<and>
   \<not> flt (round64 (254 / 100)) bitSize_default \<and>
   main go_scanner bitSize_default [''INCH'', ''T1C0.1''] =
     Fatal (ToolDiameterTooSmall ''T1C0.1'' bitSize_default)"
  by code_simp

text \<open>In general the fatal exit of a tool definition depends on the raw diameter alone.\<close>

lemma define_tool_fatal_iff:
  "(\<exists>e. define_tool B st line tool param1 = Inl e) \<longleftrightarrow> flt param1 B"
  by (simp add: define_tool_def)

subsection \<open>C2: the radii of a hole\<close>

text \<open>
  C2 says, for every cut radius \<open>R\<close> and every bit diameter \<open>B\<close>: the radius list is
  \<open>R, R - 0.45 B, R - 2 * 0.45 B, \<dots>\<close>, exactly the values above zero, and the circles
  are drawn from the last to the first, so with growing radius, hole after hole in file
  order.  As stated it fails for a bit diameter of zero: the loop variable never changes
  and no circle is ever drawn.
\<close>

theorem C2_counterexample:
  "radii_loop zero one [] = None \<and>
   draw_holes zero [\<lparr>Radius = one, Cx = zero, Cy = zero\<rparr>] = None"
  by (simp add: draw_hole_def zero_bit_hangs is_f64_one fgt_one)

text \<open>
  C2, amended: let every hole have a radius that is not above zero, or let the step
  \<open>0.45 * B\<close>, computed in float64, be a positive number \<open>t\<close> and every radius above zero
  a float64 of at most \<open>2^53 * t\<close>.  Then for every hole the loop ends, its radius list is
  \<open>R, R - t, (R - t) - t, \<dots>\<close> (every subtraction rounded), exactly the values above
  zero; the list in reverse is strictly increasing; and the circles drawn are those of
  the first hole from its last radius to its first, then those of the second hole, and
  so on.
\<close>

theorem C2_radius_list:
  assumes "\<forall>h\<in>set hs. within_reach B (Radius h)"
  shows "(\<forall>h\<in>set hs.
            radii_loop B (Radius h) [] = Some (radii_of B (Radius h)) \<and>
            is_radius_list B (Radius h) (radii_of B (Radius h)) \<and>
            sorted_wrt flt (rev (radii_of B (Radius h)))) \<and>
         draw_holes B hs =
           Some (concat (map (\<lambda>h. map (Circle (Cx h) (Cy h)) (rev (radii_of B (Radius h)))) hs))"
proof -
  have a: "\<forall>h\<in>set hs.
            radii_loop B (Radius h) [] = Some (radii_of B (Radius h)) \<and>
            is_radius_list B (Radius h) (radii_of B (Radius h)) \<and>
            sorted_wrt flt (rev (radii_of B (Radius h)))"
    using assms by (auto dest: reach_radii)
  then have "\<forall>h\<in>set hs. radii_loop B (Radius h) [] = Some (radii_of B (Radius h))" by blast
  from a draw_holes_concat[OF this] show ?thesis by blast
qed

text \<open>The hole of a 2.54 mm tool under the default bit, three circles, and a hole of a
  tool as wide as the bit, none.\<close>

theorem C2_radius_list_witness:
  "within_reach bitSize_default (Fin (8286623314361713 / 9007199254740992)) \<and>
   within_reach bitSize_default (Fin 0) \<and>
   is_radius_list bitSize_default (Fin (8286623314361713 / 9007199254740992))
     [Fin (8286623314361713 / 9007199254740992), Fin (1362338887279575 / 2251799813685248),
      Fin (5224175567749775 / 18014398509481984)] \<and>
   draw_holes bitSize_default
       [\<lparr>Radius = Fin (8286623314361713 / 9007199254740992), Cx = Fin 10, Cy = Fin 10\<rparr>,
        \<lparr>Radius = Fin 0, Cx = Fin 20, Cy = Fin 20\<rparr>] =
     Some [Circle (Fin 10) (Fin 10) (Fin (5224175567749775 / 18014398509481984)),
           Circle (Fin 10) (Fin 10) (Fin (1362338887279575 / 2251799813685248)),
           Circle (Fin 10) (Fin 10) (Fin (8286623314361713 / 9007199254740992))]"
proof -
  let ?r = "8286623314361713 / 9007199254740992 :: rat"
  let ?hs = "[\<lparr>Radius = Fin ?r, Cx = Fin 10, Cy = Fin 10\<rparr>, \<lparr>Radius = Fin 0, Cx = Fin 20, Cy = Fin 20\<rparr>]"
  have h: "\<forall>h\<in>set ?hs. within_reach bitSize_default (Radius h)"
    using reach_92 reach_0 by simp
  from C2_radius_list[OF h] reach_92 reach_0
  show ?thesis by (simp add: radii_92 radii_0)
qed

subsection \<open>C3: an inch tool of 0.1\<close>

text \<open>
  C3 says that \<^verbatim>\<open>INCH\<close>, \<^verbatim>\<open>T1C0.1\<close> with the default bit diameter records the diameter
  2.54 mm and that selecting the tool gives the radius 0.92 mm, without a fatal error.
  The arithmetic is right in float64, \<open>(2.54 - 0.7) * 0.5 = 0.92\<close>, but the program never
  gets there: the definition line is fatal, as in C1.
\<close>

theorem C3_inch_tool_is_fatal:
  "parse go_scanner bitSize_default init_state [''INCH'', ''T1C0.1'', ''T1''] =
     Inl (ToolDiameterTooSmall ''T1C0.1'' bitSize_default) \<and>
   fmul (fsub (round64 (254 / 100)) bitSize_default) half = round64 (92 / 100)"
  by code_simp

subsection \<open>C4: the extent of a single hole\<close>

text \<open>
  C4: when the input gives exactly one hole, at \<open>(10, 10)\<close> with cut radius 1, and the
  largest tool diameter is 3, the extent before the margin is left 9, right 11, top 9,
  bottom 11, and after the margin it is left 6, right 14, top 6, bottom 14.
\<close>

theorem C4_single_hole_extent:
  assumes "parse sc B init_state lines = Inr st"
    and "holes st = [\<lparr>Radius = Fin 1, Cx = Fin 10, Cy = Fin 10\<rparr>]"
    and "maxToolDiameter st = Fin 3"
  shows "extent st = (Fin 9, Fin 11, Fin 9, Fin 11) \<and>
         extent (expand st) = (Fin 6, Fin 14, Fin 6, Fin 14)"
proof -
  from parse_extent[OF assms(1) extent_init] assms(2)
  have e: "extent st = (Fin 9, Fin 11, Fin 9, Fin 11)"
    by (simp add: extent_of_def grow_def fsub_def round64_9 round64_11)
  then show ?thesis using assms(3)
    by (simp add: extent_def expand_def fsub_def round64_6 round64_14)
qed

theorem C4_single_hole_extent_witness:
  "\<exists>st. parse go_scanner one init_state [''METRIC'', ''T1C3'', ''T1'', ''X10Y10''] = Inr st \<and>
        holes st = [\<lparr>Radius = Fin 1, Cx = Fin 10, Cy = Fin 10\<rparr>] \<and>
        maxToolDiameter st = Fin 3 \<and>
        extent st = (Fin 9, Fin 11, Fin 9, Fin 11) \<and>
        extent (expand st) = (Fin 6, Fin 14, Fin 6, Fin 14)"
proof -
  let ?st = "\<lparr>tools = [(''T1'', Fin 3)], holes = [\<lparr>Radius = Fin 1, Cx = Fin 10, Cy = Fin 10\<rparr>],
          toolRadius = Fin 1, maxToolDiameter = Fin 3, factor = Fin 1,
          leftEdge = Fin 9, rightEdge = Fin 11, topEdge = Fin 9, bottomEdge = Fin 11\<rparr>"
  have h: "holes ?st = [\<lparr>Radius = Fin 1, Cx = Fin 10, Cy = Fin 10\<rparr>]" by simp
  have m: "maxToolDiameter ?st = Fin 3" by simp
  from C4_single_hole_extent[OF run_one_hole h m] run_one_hole h m show ?thesis by blast
qed

subsection \<open>C5: a hole with no radius left\<close>

text \<open>
  C5: a hole whose cut radius is zero or less gets no circle.  This is so in particular
  for the holes of a tool whose scaled diameter equals the bit diameter: selecting it
  makes the selected radius zero.
\<close>

theorem C5_nonpositive_radius_no_circle:
  "(fle R zero \<longrightarrow> draw_hole B \<lparr>Radius = R, Cx = x, Cy = y\<rparr> = Some []) \<and>
   (is_selection sc st line \<and> map_of (tools st) line = Some (Fin b) \<longrightarrow>
      step sc (Fin b) st line = Inr (st\<lparr>toolRadius := zero\<rparr>))"
proof (intro conjI impI)
  assume "fle R zero"
  then show "draw_hole B \<lparr>Radius = R, Cx = x, Cy = y\<rparr> = Some []"
    by (simp add: draw_hole_def radii_loop_stop fle_not_fgt)
next
  assume a: "is_selection sc st line \<and> map_of (tools st) line = Some (Fin b)"
  then have "step sc (Fin b) st line = Inr (st\<lparr>toolRadius := fmul (fsub (Fin b) (Fin b)) half\<rparr>)"
    by (intro step_select) (simp_all add: is_selection_def)
  then show "step sc (Fin b) st line = Inr (st\<lparr>toolRadius := zero\<rparr>)"
    by (simp add: fsub_self fmul_zero_half)
qed

text \<open>A tool of 1 mm under a bit of 1 mm.\<close>

theorem C5_nonpositive_radius_no_circle_witness:
  "fle zero zero \<and>
   draw_hole one \<lparr>Radius = zero, Cx = Fin 10, Cy = Fin 10\<rparr> = Some [] \<and>
   is_selection go_scanner (init_state\<lparr>tools := [(''T1'', Fin 1)]\<rparr>) ''T1'' \<and>
   step go_scanner (Fin 1) (init_state\<lparr>tools := [(''T1'', Fin 1)]\<rparr>) ''T1'' =
     Inr (init_state\<lparr>tools := [(''T1'', Fin 1)], toolRadius := zero\<rparr>)"
proof -
  have h: "fle zero zero" by (simp add: fle_def zero_def)
  have s: "is_selection go_scanner (init_state\<lparr>tools := [(''T1'', Fin 1)]\<rparr>) ''T1''"
    by (simp add: is_selection_def scan_T1)
  have m: "map_of (tools (init_state\<lparr>tools := [(''T1'', Fin 1)]\<rparr>)) ''T1'' = Some (Fin 1)"
    by simp
  from C5_nonpositive_radius_no_circle
         [of zero one "Fin 10" "Fin 10" go_scanner "init_state\<lparr>tools := [(''T1'', Fin 1)]\<rparr>" "''T1''" 1]
       h s m
  show ?thesis by simp
qed

subsection \<open>C6: the extent of a file without holes\<close>

text \<open>
  C6 says that for an input without holes the extent given to the output stays at its
  zero-initialised state, however many tool definitions the input has.  The margin is
  added in every run: a file with a tool of 1 mm and no hole gives the extent left -1,
  right 1, top -1, bottom 1.
\<close>

theorem C6_counterexample:
  "observe go_scanner bitSize_default [''METRIC'', ''T1C1.0''] =
     Inr ([], (Fin (- 1), Fin 1, Fin (- 1), Fin 1), Some [])"
  by code_simp

text \<open>
  C6, amended: for an input without holes the extent before the margin is the four
  zeros, and the extent given to the output is \<open>(0 - m, 0 + m, 0 - m, 0 + m)\<close> for the
  largest tool diameter \<open>m\<close>; it is the four zeros when the input defines no tool.
\<close>

theorem C6_extent_without_holes:
  assumes "parse sc B init_state lines = Inr st" and "holes st = []"
  shows "extent st = (zero, zero, zero, zero) \<and>
         extent (expand st) =
           (fsub zero (maxToolDiameter st), fadd zero (maxToolDiameter st),
            fsub zero (maxToolDiameter st), fadd zero (maxToolDiameter st)) \<and>
         (tools st = [] \<longrightarrow> extent (expand st) = (zero, zero, zero, zero))"
proof -
  from parse_holes_empty[OF assms] have e: "extent st = (zero, zero, zero, zero)"
    by (simp add: extent_def init_state_def)
  have m: "tools st = [] \<Longrightarrow> maxToolDiameter st = zero"
    using parse_tools_empty[OF assms(1)] by (simp add: init_state_def)
  from e have x: "extent (expand st) =
           (fsub zero (maxToolDiameter st), fadd zero (maxToolDiameter st),
            fsub zero (maxToolDiameter st), fadd zero (maxToolDiameter st))"
    by (simp add: extent_def expand_def)
  show ?thesis using e x m by (auto simp: fsub_zero_zero)
qed

theorem C6_extent_without_holes_witness:
  "(\<exists>st. parse go_scanner bitSize_default init_state [''METRIC'', ''T1C1.0''] = Inr st \<and>
         holes st = [] \<and> extent st = (zero, zero, zero, zero) \<and>
         extent (expand st) =
           (fsub zero (Fin 1), fadd zero (Fin 1), fsub zero (Fin 1), fadd zero (Fin 1))) \<and>
   (\<exists>st. parse go_scanner bitSize_default init_state [''M48'', ''METRIC''] = Inr st \<and>
         holes st = [] \<and> tools st = [] \<and> extent (expand st) = (zero, zero, zero, zero))"
proof -
  let ?a = "\<lparr>tools = [(''T1'', Fin 1)], holes = [], toolRadius = Fin 0, maxToolDiameter = Fin 1,
          factor = Fin 1, leftEdge = Fin 0, rightEdge = Fin 0, topEdge = Fin 0,
          bottomEdge = Fin 0\<rparr>"
  let ?b = "\<lparr>tools = [], holes = [], toolRadius = Fin 0, maxToolDiameter = Fin 0,
          factor = Fin 1, leftEdge = Fin 0, rightEdge = Fin 0, topEdge = Fin 0,
          bottomEdge = Fin 0\<rparr>"
  have ha: "holes ?a = []" and hb: "holes ?b = []" and tb: "tools ?b = []" by simp_all
  from C6_extent_without_holes[OF run_tool_only ha]
  have a: "extent ?a = (zero, zero, zero, zero) \<and>
         extent (expand ?a) =
           (fsub zero (Fin 1), fadd zero (Fin 1), fsub zero (Fin 1), fadd zero (Fin 1))"
    by simp
  from C6_extent_without_holes[OF run_header_only hb] tb
  have b: "extent (expand ?b) = (zero, zero, zero, zero)" by blast
  from a run_tool_only ha b run_header_only hb tb show ?thesis by blast
qed

subsection \<open>C7: a coordinate line before any selection\<close>

text \<open>
  C7: a coordinate line that comes before any tool-selection line does not fail; it
  gives a hole whose radius is the initial selected radius, zero.
\<close>

theorem C7_coordinate_before_selection:
  assumes "parse sc B init_state pre = Inr st"
    and "no_selection sc B init_state pre"
    and "is_coordinate sc st line"
    and "scan_coord sc line = Some (x, y)"
  shows "\<exists>st'. parse sc B init_state (pre @ [line]) = Inr st' \<and>
           holes st' =
             holes st @ [\<lparr>Radius = zero, Cx = fmul x (factor st), Cy = fmul y (factor st)\<rparr>]"
proof -
  have r: "toolRadius st = zero"
    using parse_no_selection[OF assms(1,2)] by (simp add: init_state_def)
  from assms(3,4)
  have "step sc B st line = Inr (add_hole st (fmul x (factor st)) (fmul y (factor st)))"
    by (simp add: is_coordinate_def step_coord)
  then have "parse sc B init_state (pre @ [line]) =
      Inr (add_hole st (fmul x (factor st)) (fmul y (factor st)))"
    by (simp add: parse_append assms(1))
  then show ?thesis using r by (simp add: add_hole_holes)
qed

theorem C7_coordinate_before_selection_witness:
  "\<exists>st'. parse go_scanner bitSize_default init_state ([''METRIC''] @ [''X1.0Y2.0'']) = Inr st' \<and>
         holes st' = [\<lparr>Radius = zero, Cx = fmul (Fin 1) one, Cy = fmul (Fin 2) one\<rparr>]"
proof -
  have n: "no_selection go_scanner bitSize_default init_state [''METRIC'']" by code_simp
  have c: "is_coordinate go_scanner (init_state\<lparr>factor := one\<rparr>) ''X1.0Y2.0''" by code_simp
  have s: "scan_coord go_scanner ''X1.0Y2.0'' = Some (Fin 1, Fin 2)" by code_simp
  from C7_coordinate_before_selection[OF run_metric n c s] show ?thesis
    by (simp add: init_state_def)
qed

subsection \<open>C8: two runs on the same input\<close>



subsection \<open>C9: the key of a tool definition\<close>

text \<open>
  C9: a tool is stored under \<^verbatim>\<open>T\<close> followed by the decimal rendering of the integer read,
  so a definition whose digits carry leading zeros is stored under the key without them;
  a later line \<^verbatim>\<open>T\<close> with digits that carry leading zeros finds no entry and is ignored,
  and the line that is the key selects the tool.  In any run, for every line that
  \<^verbatim>\<open>Sscanf\<close> reads as the tool \<open>n\<close> of a diameter \<open>p\<close> not below the bit diameter:
  the step stores the scaled diameter under \<^verbatim>\<open>T\<close> and \<open>show_int n\<close>, which is the decimal
  rendering of \<open>n\<close>; the line made of that key selects the tool; at any later point of the
  run a line \<^verbatim>\<open>T\<close> with digits that carry leading zeros finds no entry and leaves every
  variable as it is.  And \<^verbatim>\<open>Sscanf\<close> reads \<^verbatim>\<open>T\<close>, digits, \<^verbatim>\<open>C\<close> and a number as the tool of the
  value of the digits, leading zeros or not (\<^verbatim>\<open>T01C1.0\<close> as tool 1).
\<close>

theorem C9_normalised_tool_key:
  assumes "parse go_scanner B init_state pre = Inr st"
    and "scan_tool go_scanner line = Some (n, p)" and "\<not> flt p B"
  shows "\<exists>st1. step go_scanner B st line = Inr st1 \<and>
           is_decimal_of n (show_int n) \<and>
           map_of (tools st1) (CHR ''T'' # show_int n) = Some (fmul p (factor st)) \<and>
           step go_scanner B st1 (CHR ''T'' # show_int n) =
             Inr (st1\<lparr>toolRadius := fmul (fsub (fmul p (factor st)) B) half\<rparr>) \<and>
           (\<forall>ds post st2. leading_zeros ds \<and> parse go_scanner B st1 post = Inr st2 \<longrightarrow>
              map_of (tools st2) (CHR ''T'' # ds) = None \<and>
              step go_scanner B st2 (CHR ''T'' # ds) = Inr st2) \<and>
           (\<forall>ds ftext q rest.
              ds \<noteq> [] \<and> list_all is_digit ds \<and> read_digits ds < 2 ^ 63 \<and>
              scan_f ftext = Some (q, rest) \<longrightarrow>
              scan_tool go_scanner (CHR ''T'' # ds @ CHR ''C'' # ftext) = Some (read_digits ds, q))"
proof -
  let ?d = "fmul p (factor st)"
  note ln = scan_tool_line[OF assms(2)]
  have "step go_scanner B st line = define_tool B st line n p"
    by (rule step_tool) (simp_all add: ln assms(2))
  with assms(3) obtain st1 where s1: "step go_scanner B st line = Inr st1"
    and d1: "define_tool B st line n p = Inr st1"
    by (simp add: define_tool_def)
  from define_tool_key[OF d1] have m1: "map_of (tools st1) (CHR ''T'' # show_int n) = Some ?d"
    by (simp add: sprint_T_def)
  have "fst ` set (tools st) \<subseteq> range sprint_T"
    by (rule parse_keys[OF assms(1)]) (simp add: init_state_def)
  note keys = step_keys[OF s1 this]
  have s: "step go_scanner B st1 (CHR ''T'' # show_int n) =
      Inr (st1\<lparr>toolRadius := fmul (fsub ?d B) half\<rparr>)"
  proof (rule step_select)
    show "scan_tool go_scanner (CHR ''T'' # show_int n) = None"
      using key_selects_scan[of n] by (simp add: sprint_T_def)
  qed (simp_all add: m1)
  have z: "\<forall>ds post st2. leading_zeros ds \<and> parse go_scanner B st1 post = Inr st2 \<longrightarrow>
      map_of (tools st2) (CHR ''T'' # ds) = None \<and>
      step go_scanner B st2 (CHR ''T'' # ds) = Inr st2"
    using leading_zeros_ignored parse_keys[OF _ keys] by blast
  have g: "\<forall>ds ftext q rest.
      ds \<noteq> [] \<and> list_all is_digit ds \<and> read_digits ds < 2 ^ 63 \<and>
      scan_f ftext = Some (q, rest) \<longrightarrow>
      scan_tool go_scanner (CHR ''T'' # ds @ CHR ''C'' # ftext) = Some (read_digits ds, q)"
    using scan_tool_digits by blast
  from s1 show_int_decimal[of n] m1 s z g show ?thesis by blast
qed

text \<open>The lines of the claim after \<^verbatim>\<open>METRIC\<close>: \<^verbatim>\<open>T01C1.0\<close> is stored under \<^verbatim>\<open>T1\<close>, the line
  \<^verbatim>\<open>T1\<close> selects it and the line \<^verbatim>\<open>T01\<close> is ignored; and \<^verbatim>\<open>T007C2.5\<close> is read as tool 7.\<close>

theorem C9_normalised_tool_key_witness:
  "\<exists>st1. step go_scanner bitSize_default (init_state\<lparr>factor := one\<rparr>) ''T01C1.0'' = Inr st1 \<and>
     is_decimal_of 1 ''1'' \<and>
     map_of (tools st1) ''T1'' = Some (fmul (Fin 1) one) \<and>
     step go_scanner bitSize_default st1 ''T1'' =
       Inr (st1\<lparr>toolRadius := fmul (fsub (fmul (Fin 1) one) bitSize_default) half\<rparr>) \<and>
     map_of (tools st1) ''T01'' = None \<and>
     step go_scanner bitSize_default st1 ''T01'' = Inr st1 \<and>
     scan_tool go_scanner ''T007C2.5'' = Some (7, Fin (5 / 2))"
proof -
  have a: "scan_tool go_scanner ''T01C1.0'' = Some (1, Fin 1)" by code_simp
  have b: "\<not> flt (Fin 1) bitSize_default" by code_simp
  have c: "show_int 1 = ''1''" by code_simp
  have d: "leading_zeros ''01''" by code_simp
  have e: "''007'' \<noteq> [] \<and> list_all is_digit ''007'' \<and> read_digits ''007'' < 2 ^ 63 \<and>
           scan_f ''2.5'' = Some (Fin (5 / 2), [])" by code_simp
  have f: "read_digits ''007'' = 7" by code_simp
  from C9_normalised_tool_key[OF run_metric a b] obtain st1 where
    1: "step go_scanner bitSize_default (init_state\<lparr>factor := one\<rparr>) ''T01C1.0'' = Inr st1"
    and 2: "is_decimal_of 1 (show_int 1)"
    and 3: "map_of (tools st1) (CHR ''T'' # show_int 1) =
             Some (fmul (Fin 1) (factor (init_state\<lparr>factor := one\<rparr>)))"
    and 4: "step go_scanner bitSize_default st1 (CHR ''T'' # show_int 1) =
             Inr (st1\<lparr>toolRadius :=
                    fmul (fsub (fmul (Fin 1) (factor (init_state\<lparr>factor := one\<rparr>)))
                            bitSize_default) half\<rparr>)"
    and 5: "\<forall>ds post st2.
              leading_zeros ds \<and> parse go_scanner bitSize_default st1 post = Inr st2 \<longrightarrow>
              map_of (tools st2) (CHR ''T'' # ds) = None \<and>
              step go_scanner bitSize_default st2 (CHR ''T'' # ds) = Inr st2"
    and 6: "\<forall>ds ftext q rest.
              ds \<noteq> [] \<and> list_all is_digit ds \<and> read_digits ds < 2 ^ 63 \<and>
              scan_f ftext = Some (q, rest) \<longrightarrow>
              scan_tool go_scanner (CHR ''T'' # ds @ CHR ''C'' # ftext) = Some (read_digits ds, q)"
    by blast
  have p: "parse go_scanner bitSize_default st1 [] = Inr st1" by simp
  from 5 d p have 7: "map_of (tools st1) ''T01'' = None \<and>
      step go_scanner bitSize_default st1 ''T01'' = Inr st1" by blast
  from 6 e have "scan_tool go_scanner (CHR ''T'' # ''007'' @ CHR ''C'' # ''2.5'') =
      Some (read_digits ''007'', Fin (5 / 2))" by blast
  then have 8: "scan_tool go_scanner ''T007C2.5'' = Some (7, Fin (5 / 2))" by (simp add: f)
  from 1 2 3 4 7 8 show ?thesis by (simp add: c)
qed

subsection \<open>C10: when the radius loop ends\<close>

text \<open>
  C10 says that the radius loop ends for every radius whenever the bit diameter is
  above zero, that it never ends for a bit diameter of zero and a radius above zero,
  and that the program does not ask for a bit diameter above zero.  The first part fails
  in float64: at the radius \<open>2^53\<close> and the default bit diameter the subtraction of the
  step 0.315 rounds back to \<open>2^53\<close>, so the loop variable never changes.  A tool of
  \<open>2^54\<close> mm gives that radius.
\<close>

theorem C10_counterexample:
  "fgt bitSize_default zero \<and> is_f64 (Fin (2 ^ 53)) \<and>
   radii_loop bitSize_default (Fin (2 ^ 53)) [] = None \<and>
   main go_scanner bitSize_default [''METRIC'', ''T1C18014398509481984'', ''T1'', ''X0Y0''] = Hangs"
proof -
  have "fgt bitSize_default zero" by code_simp
  moreover have "main go_scanner bitSize_default
      [''METRIC'', ''T1C18014398509481984'', ''T1'', ''X0Y0''] = Hangs"
    unfolding main_def run_huge_tool by (simp add: render_def expand_def draw_hole_def huge_hangs)
  ultimately show ?thesis using is_f64_2_53 huge_hangs by simp
qed

text \<open>
  C10, amended: the loop ends whenever the step \<open>0.45 * B\<close>, computed in float64, is a
  positive number \<open>t\<close> and the radius is a float64 of at most \<open>2^53 * t\<close> (and whenever the
  radius is not above zero); for the bit diameter zero and any float64 radius above zero
  it never ends; and the program runs with the bit diameter zero into that loop.
\<close>

theorem C10_termination:
  "(within_reach B R \<longrightarrow> (\<exists>rs. radii_loop B R [] = Some rs)) \<and>
   (is_f64 R \<and> fgt R zero \<longrightarrow> radii_loop zero R [] = None) \<and>
   main go_scanner zero [''METRIC'', ''T1C1'', ''T1'', ''X0Y0''] = Hangs"
proof (intro conjI impI)
  assume "within_reach B R"
  from reach_radii[OF this] show "\<exists>rs. radii_loop B R [] = Some rs" by blast
next
  assume "is_f64 R \<and> fgt R zero"
  then show "radii_loop zero R [] = None" by (simp add: zero_bit_hangs)
next
  have f: "is_f64 (Fin (1 / 2))" by code_simp
  have g: "fgt (Fin (1 / 2)) zero" by (simp add: fgt_Fin_zero)
  show "main go_scanner zero [''METRIC'', ''T1C1'', ''T1'', ''X0Y0''] = Hangs"
    unfolding main_def run_zero_bit
    by (simp add: render_def expand_def draw_hole_def zero_bit_hangs[OF f g])
qed

theorem C10_termination_witness:
  "within_reach bitSize_default (Fin (8286623314361713 / 9007199254740992)) \<and>
   (\<exists>rs. radii_loop bitSize_default (Fin (8286623314361713 / 9007199254740992)) [] = Some rs) \<and>
   is_f64 one \<and> fgt one zero \<and> radii_loop zero one [] = None"
proof -
  from C10_termination[of bitSize_default "Fin (8286623314361713 / 9007199254740992)"]
    C10_termination[of zero one] reach_92 is_f64_one fgt_one
  show ?thesis by blast
qed

end
